theory Spec2Isabelle
  imports Main "HOL-Library.Word" "HOL-Library.List_Lexorder" "HOL-Library.AList"
begin

section \<open>Strings\<close>

text \<open>
  A JavaScript string is a sequence of UTF-16 code units. Every string operation of
  \<^verbatim>\<open>lokalise.ts\<close> (\<^verbatim>\<open>includes\<close>, \<^verbatim>\<open>startsWith\<close>, \<^verbatim>\<open>endsWith\<close>,
  \<^verbatim>\<open>split\<close>, \<^verbatim>\<open>replace\<close>, the default \<^verbatim>\<open>sort\<close>) works on code units, so a
  string is a list of 16-bit words. \<open>js\<close> reads an ASCII literal.
\<close>

type_synonym jsstring = "16 word list"

definition js :: "string \<Rightarrow> jsstring" where
  "js s = map of_char s"

definition TAB :: "16 word" where "TAB = 0x09"
definition SPACE :: "16 word" where "SPACE = 0x20"

text \<open>
  The regular-expression class \<^verbatim>\<open>\s\<close>: the WhiteSpace and LineTerminator code
  points of ECMAScript (tab, LF, VT, FF, CR, space, NBSP, U+1680, U+2000..U+200A,
  U+2028, U+2029, U+202F, U+205F, U+3000, U+FEFF).
\<close>

definition is_space :: "16 word \<Rightarrow> bool" where
  "is_space c \<longleftrightarrow>
     c = 0x09 \<or> c = 0x0A \<or> c = 0x0B \<or> c = 0x0C \<or> c = 0x0D \<or> c = 0x20 \<or> c = 0xA0
     \<or> c = 0x1680 \<or> (0x2000 \<le> c \<and> c \<le> 0x200A) \<or> c = 0x2028 \<or> c = 0x2029
     \<or> c = 0x202F \<or> c = 0x205F \<or> c = 0x3000 \<or> c = 0xFEFF"

text \<open>\<^verbatim>\<open>s.startsWith(" ")\<close> and \<^verbatim>\<open>s.endsWith(" ")\<close>.\<close>

fun startsWith_space :: "jsstring \<Rightarrow> bool" where
  "startsWith_space [] = False"
| "startsWith_space (c # cs) = (c = SPACE)"

fun endsWith_space :: "jsstring \<Rightarrow> bool" where
  "endsWith_space [] = False"
| "endsWith_space [c] = (c = SPACE)"
| "endsWith_space (c # d # cs) = endsWith_space (d # cs)"

text \<open>
  \<^verbatim>\<open>value.replace(TAB_REGEX, " ")\<close> with \<^verbatim>\<open>TAB_REGEX = /\t+/g\<close>: the scan goes
  left to right; at a tab the greedy match takes the whole run of tabs and one space is
  written for it; any other code unit is copied.
\<close>

function replace_TAB_REGEX :: "jsstring \<Rightarrow> jsstring" where
  "replace_TAB_REGEX [] = []"
| "replace_TAB_REGEX (c # cs) =
     (if c = TAB then SPACE # replace_TAB_REGEX (dropWhile (\<lambda>d. d = TAB) cs)
      else c # replace_TAB_REGEX cs)"
  by pat_completeness auto
termination
  by (relation "measure length") (auto simp: le_imp_less_Suc length_dropWhile_le)

text \<open>
  \<^verbatim>\<open>value.replace(LEADING_SPACE_REGEX, "")\<close> with \<^verbatim>\<open>/^\s+/g\<close>: without the
  \<^verbatim>\<open>m\<close> flag \<^verbatim>\<open>^\<close> matches at index 0 only, where the greedy \<^verbatim>\<open>\s+\<close> takes the
  longest run of white space; no match leaves the string as it is.
\<close>

fun replace_LEADING_SPACE_REGEX :: "jsstring \<Rightarrow> jsstring" where
  "replace_LEADING_SPACE_REGEX [] = []"
| "replace_LEADING_SPACE_REGEX (c # cs) =
     (if is_space c then replace_LEADING_SPACE_REGEX cs else c # cs)"

text \<open>
  \<^verbatim>\<open>value.replace(TRAILING_SPACE_REGEX, "")\<close> with \<^verbatim>\<open>/\s+$/g\<close>: the leftmost
  index from which \<^verbatim>\<open>\s+$\<close> matches is the first index from which everything up to the
  end of the string is white space; the match is removed.
\<close>

fun replace_TRAILING_SPACE_REGEX :: "jsstring \<Rightarrow> jsstring" where
  "replace_TRAILING_SPACE_REGEX [] = []"
| "replace_TRAILING_SPACE_REGEX (c # cs) =
     (if list_all is_space (c # cs) then [] else c # replace_TRAILING_SPACE_REGEX cs)"

text \<open>The body of the reducer of \<^verbatim>\<open>cleanupJson\<close> for one value (lines 78 to 90).\<close>

definition cleanupValue :: "jsstring \<Rightarrow> jsstring" where
  "cleanupValue value0 =
     (let value1 = (if TAB \<in> set value0 then replace_TAB_REGEX value0 else value0);
          value2 = (if startsWith_space value1 then replace_LEADING_SPACE_REGEX value1 else value1);
          value3 = (if endsWith_space value2 then replace_TRAILING_SPACE_REGEX value2 else value2)
      in value3)"

section \<open>Objects\<close>

text \<open>
  A plain JavaScript object with string keys: the list of its own properties in the order
  in which \<^verbatim>\<open>Object.keys\<close>, \<^verbatim>\<open>Object.values\<close>, \<^verbatim>\<open>Object.entries\<close>, the
  spread \<^verbatim>\<open>{...o}\<close> and \<^verbatim>\<open>JSON.stringify\<close> enumerate them (OrdinaryOwnPropertyKeys):
  first the keys that are array indices, in ascending numeric order, then the other
  keys in the order of their creation.

  An array index is the canonical decimal spelling of an integer from 0 to \<open>2^32 - 2\<close>:
  digits only, no leading zero except for \<^verbatim>\<open>"0"\<close> itself.
\<close>

type_synonym 'v jsobject = "(jsstring \<times> 'v) list"

definition is_digit :: "16 word \<Rightarrow> bool" where
  "is_digit c \<longleftrightarrow> 0x30 \<le> c \<and> c \<le> 0x39"

definition index_val :: "jsstring \<Rightarrow> nat" where
  "index_val k = foldl (\<lambda>n c. 10 * n + (unat c - 48)) 0 k"

definition is_array_index :: "jsstring \<Rightarrow> bool" where
  "is_array_index k =
     (case k of
        [] \<Rightarrow> False
      | c # cs \<Rightarrow> list_all is_digit k \<and> (c \<noteq> 0x30 \<or> cs = []) \<and> index_val k < 4294967295)"

definition Object_keys :: "'v jsobject \<Rightarrow> jsstring list" where
  "Object_keys obj = map fst obj"

definition Object_values :: "'v jsobject \<Rightarrow> 'v list" where
  "Object_values obj = map snd obj"

text \<open>\<^verbatim>\<open>obj[key]\<close> for an own property; \<open>None\<close> is \<^verbatim>\<open>undefined\<close>.\<close>

definition obj_get :: "'v jsobject \<Rightarrow> jsstring \<Rightarrow> 'v option" where
  "obj_get obj key = map_of obj key"

definition has_own :: "'v jsobject \<Rightarrow> jsstring \<Rightarrow> bool" where
  "has_own obj key \<longleftrightarrow> key \<in> set (Object_keys obj)"

text \<open>
  \<^verbatim>\<open>obj[key]\<close> as the language reads it, on an object whose prototype is
  \<^verbatim>\<open>Object.prototype\<close>: an own property is found first; a key that the object does
  not have is looked up in \<^verbatim>\<open>Object.prototype\<close>, which has the twelve members
  below (eleven functions, and the accessor \<^verbatim>\<open>__proto__\<close> whose getter gives
  \<^verbatim>\<open>Object.prototype\<close> itself); every other key gives \<^verbatim>\<open>undefined\<close>. None of
  the twelve values is \<^verbatim>\<open>null\<close> or \<^verbatim>\<open>undefined\<close>, and none has an enumerable own
  property unless the program has given it one.
\<close>

definition Object_prototype_names :: "jsstring list" where
  "Object_prototype_names =
     [js ''constructor'', js ''__defineGetter__'', js ''__defineSetter__'', js ''hasOwnProperty'',
      js ''__lookupGetter__'', js ''__lookupSetter__'', js ''isPrototypeOf'',
      js ''propertyIsEnumerable'', js ''toString'', js ''valueOf'', js ''__proto__'',
      js ''toLocaleString'']"

datatype 'v found = Own 'v | Inherited | Undefined

definition obj_member :: "'v jsobject \<Rightarrow> jsstring \<Rightarrow> 'v found" where
  "obj_member obj key =
     (case obj_get obj key of
        Some v \<Rightarrow> Own v
      | None \<Rightarrow> if key \<in> set Object_prototype_names then Inherited else Undefined)"

text \<open>A new array-index key goes to its numeric place among the array indices.\<close>

fun insert_index :: "jsstring \<Rightarrow> 'v \<Rightarrow> 'v jsobject \<Rightarrow> 'v jsobject" where
  "insert_index k v [] = [(k, v)]"
| "insert_index k v ((k', v') # ps) =
     (if is_array_index k' \<and> index_val k' < index_val k then (k', v') # insert_index k v ps
      else (k, v) # (k', v') # ps)"

text \<open>An existing key keeps its place and takes the new value.\<close>

fun replace_own :: "jsstring \<Rightarrow> 'v \<Rightarrow> 'v jsobject \<Rightarrow> 'v jsobject" where
  "replace_own k v [] = []"
| "replace_own k v ((k', v') # ps) =
     (if k' = k then (k, v) # ps else (k', v') # replace_own k v ps)"

text \<open>
  Defining the own data property \<open>key\<close> (CreateDataProperty): an existing key is
  overwritten, a new key is created, after the keys created before it unless it is an
  array index.
\<close>

definition obj_define :: "'v jsobject \<Rightarrow> jsstring \<Rightarrow> 'v \<Rightarrow> 'v jsobject" where
  "obj_define obj key v =
     (if has_own obj key then replace_own key v obj
      else if is_array_index key then insert_index key v obj
      else obj @ [(key, v)])"

text \<open>
  The assignment \<^verbatim>\<open>obj[key] = v\<close> of a string \<open>v\<close> on an object whose prototype is
  \<^verbatim>\<open>Object.prototype\<close> (every object made by \<^verbatim>\<open>JSON.parse\<close>). An own property is
  written. Otherwise the one member of \<^verbatim>\<open>Object.prototype\<close> that is an accessor,
  \<^verbatim>\<open>__proto__\<close>, receives the assignment: its setter ignores a value that is neither an
  object nor null, and no own property is created. Every other key is created as an own
  property.
\<close>

definition obj_assign :: "jsstring jsobject \<Rightarrow> jsstring \<Rightarrow> jsstring \<Rightarrow> jsstring jsobject" where
  "obj_assign obj key v =
     (if \<not> has_own obj key \<and> key = js ''__proto__'' then obj else obj_define obj key v)"

text \<open>\<^verbatim>\<open>delete obj[key]\<close>.\<close>

definition obj_delete :: "'v jsobject \<Rightarrow> jsstring \<Rightarrow> 'v jsobject" where
  "obj_delete obj key = filter (\<lambda>(k', v'). k' \<noteq> key) obj"

section \<open>cleanupJson\<close>

text \<open>
  \<^verbatim>\<open>keys.sort()\<close> without a comparator orders strings by their code units, a proper
  prefix first: the lexicographic order of lists. The reducer returns \<open>acc\<close> for a key
  outside \<open>allowedKeys\<close> and \<^verbatim>\<open>{ ...acc, [key]: value }\<close> otherwise; the spread copies
  \<open>acc\<close> in its enumeration order, which is the order of the list, and the computed key
  defines an own property. \<^verbatim>\<open>json[key]\<close> is read for a key of \<^verbatim>\<open>Object.keys(json)\<close>,
  so it is never \<^verbatim>\<open>undefined\<close>.
\<close>

definition cleanupJson_step ::
  "jsstring jsobject \<Rightarrow> jsstring set \<Rightarrow> jsstring jsobject \<Rightarrow> jsstring \<Rightarrow> jsstring jsobject" where
  "cleanupJson_step json allowedKeys acc key =
     (if key \<notin> allowedKeys then acc
      else (case obj_get json key of
              None \<Rightarrow> acc
            | Some v \<Rightarrow> obj_define acc key (cleanupValue v)))"

definition cleanupJson :: "jsstring jsobject \<Rightarrow> jsstring set \<Rightarrow> jsstring jsobject" where
  "cleanupJson json allowedKeys =
     foldl (cleanupJson_step json allowedKeys) [] (sort (Object_keys json))"

section \<open>The pull merge\<close>

text \<open>
  Lines 158 to 191 of \<^verbatim>\<open>pullProject\<close>, from the parsed reference file
  \<open>localTranslations\<close> and the unpacked bundle \<open>pulledLocales\<close> to the bundle that is
  written. The bundle is the accumulator \<^verbatim>\<open>{}\<close> of the \<^verbatim>\<open>reduce\<close> of line 147 with
  one own property for each locale, and \<^verbatim>\<open>pulledLocales[project.defaultLocale]\<close> is
  read through its prototype chain (\<open>obj_member\<close>):

    \<^item> \<^verbatim>\<open>undefined\<close>: the test \<^verbatim>\<open>== null\<close> holds, and \<open>None\<close> is the early return;

    \<^item> an own property: \<open>pulledDefaultLocale\<close> is the very object stored in
      \<open>pulledLocales\<close>, so the keys assigned to it are assigned in the bundle.
      \<open>pulledKeys\<close> is a \<^verbatim>\<open>Set\<close> filled from \<^verbatim>\<open>Object.keys\<close>, whose elements are
      distinct: spreading it gives them back;

    \<^item> a member of \<^verbatim>\<open>Object.prototype\<close>: the test \<^verbatim>\<open>== null\<close> fails and there is no
      early return. \<^verbatim>\<open>Object.keys\<close> of the member is empty, so \<open>pulledKeys\<close> is empty:
      no key is removed, and every key of the local reference is assigned, as a
      property of that built-in object and not in the bundle, which stays as it was
      downloaded. \<open>assigns_builtin\<close> tells whether there is such an assignment; the
      process below does not follow a run beyond it.
\<close>

type_synonym localeMap = "jsstring jsobject"
type_synonym pulled = "localeMap jsobject"

definition addKey :: "localeMap \<Rightarrow> localeMap \<Rightarrow> jsstring \<Rightarrow> localeMap" where
  "addKey localTranslations pulledDefaultLocale key =
     (case obj_get localTranslations key of
        None \<Rightarrow> pulledDefaultLocale
      | Some v \<Rightarrow> obj_assign pulledDefaultLocale key v)"

definition removeKey :: "pulled \<Rightarrow> jsstring \<Rightarrow> pulled" where
  "removeKey pulledLocales key = map (\<lambda>(localeName, json). (localeName, obj_delete json key)) pulledLocales"

definition reconcile :: "jsstring \<Rightarrow> localeMap \<Rightarrow> pulled \<Rightarrow> pulled option" where
  "reconcile defaultLocale localTranslations pulledLocales =
     (let localKeys = set (Object_keys localTranslations) in
      case obj_member pulledLocales defaultLocale of
        Undefined \<Rightarrow> None
      | Inherited \<Rightarrow> Some pulledLocales
      | Own pulledDefaultLocale \<Rightarrow>
          let pulledKeys = Object_keys pulledDefaultLocale;
              locallyAddedKeys = filter (\<lambda>key. key \<notin> set pulledKeys) (Object_keys localTranslations);
              locallyRemovedKeys = filter (\<lambda>key. key \<notin> localKeys) pulledKeys;
              added = foldl (addKey localTranslations) pulledDefaultLocale locallyAddedKeys;
              pulledLocales1 = obj_define pulledLocales defaultLocale added
          in Some (foldl removeKey pulledLocales1 locallyRemovedKeys))"

definition assigns_builtin :: "jsstring \<Rightarrow> localeMap \<Rightarrow> pulled \<Rightarrow> bool" where
  "assigns_builtin defaultLocale localTranslations pulledLocales \<longleftrightarrow>
     obj_member pulledLocales defaultLocale = Inherited \<and> Object_keys localTranslations \<noteq> []"

section \<open>The usage scanner\<close>

text \<open>\<^verbatim>\<open>s.includes(t)\<close>: \<open>t\<close> occurs in \<open>s\<close> as a contiguous run of code units.\<close>

fun startsWith :: "jsstring \<Rightarrow> jsstring \<Rightarrow> bool" where
  "startsWith s [] = True"
| "startsWith [] (d # ds) = False"
| "startsWith (c # cs) (d # ds) = (c = d \<and> startsWith cs ds)"

fun includes_js :: "jsstring \<Rightarrow> jsstring \<Rightarrow> bool" where
  "includes_js [] t = (t = [])"
| "includes_js (c # cs) t = (startsWith (c # cs) t \<or> includes_js cs t)"

text \<open>\<^verbatim>\<open>s.split(sep)\<close> for a separator of one code unit; the empty string gives \<^verbatim>\<open>[""]\<close>.\<close>

fun split_js :: "jsstring \<Rightarrow> 16 word \<Rightarrow> jsstring list" where
  "split_js [] sep = [[]]"
| "split_js (c # cs) sep =
     (if c = sep then [] # split_js cs sep
      else (case split_js cs sep of
              [] \<Rightarrow> [[c]]
            | seg # segs \<Rightarrow> (c # seg) # segs))"

text \<open>
  \<^verbatim>\<open>xs.slice(start, fin)\<close>: a negative bound counts from the end of the array, and
  both bounds are clamped to the array.
\<close>

definition slice_js :: "'a list \<Rightarrow> int \<Rightarrow> int \<Rightarrow> 'a list" where
  "slice_js xs start fin =
     (let len = int (length xs);
          k = (if start < 0 then max (len + start) 0 else min start len);
          final = (if fin < 0 then max (len + fin) 0 else min fin len)
      in take (nat (final - k)) (drop (nat k) xs))"

text \<open>\<^verbatim>\<open>xs.join(sep)\<close>.\<close>

fun join :: "jsstring list \<Rightarrow> jsstring \<Rightarrow> jsstring" where
  "join [] sep = []"
| "join [x] sep = x"
| "join (x # y # ys) sep = x @ sep @ join (y # ys) sep"

definition DOT :: "16 word" where "DOT = 0x2E"

definition variantKey1 :: "jsstring \<Rightarrow> jsstring" where
  "variantKey1 key = join (slice_js (split_js key DOT) 0 (- 1)) (js ''.'') @ js ''.${''"

definition variantKey2 :: "jsstring \<Rightarrow> jsstring" where
  "variantKey2 key = join (slice_js (split_js key DOT) 0 (- 2)) (js ''.'') @ js ''.${''"

text \<open>The predicate of the filter that builds \<open>unusedKeys\<close> (lines 364 to 377).\<close>

definition DQUOTE :: "16 word" where "DQUOTE = 0x22"
definition SQUOTE :: "16 word" where "SQUOTE = 0x27"
definition BACKTICK :: "16 word" where "BACKTICK = 0x60"

definition isUnused :: "jsstring \<Rightarrow> jsstring \<Rightarrow> bool" where
  "isUnused code key \<longleftrightarrow>
     \<not> includes_js code ([DQUOTE] @ key @ [DQUOTE]) \<and>
     \<not> includes_js code ([BACKTICK] @ key @ [BACKTICK]) \<and>
     \<not> includes_js code ([SQUOTE] @ key @ [SQUOTE]) \<and>
     \<not> includes_js code ([BACKTICK] @ variantKey1 key) \<and>
     \<not> includes_js code ([BACKTICK] @ variantKey2 key)"

text \<open>
  The text that is searched: the source files in the order of the glob, each followed
  by \<^verbatim>\<open>os.EOL\<close> (lines 359 to 362).
\<close>

definition concatSources :: "jsstring \<Rightarrow> jsstring list \<Rightarrow> jsstring" where
  "concatSources EOL fileContents = foldl (\<lambda>acc content. acc @ content @ EOL) [] fileContents"

text \<open>The two results of \<^verbatim>\<open>findUnusedInProject\<close>.\<close>

definition unusedKeys :: "jsstring \<Rightarrow> jsstring list \<Rightarrow> jsstring list" where
  "unusedKeys code refrenceKeys = filter (isUnused code) refrenceKeys"

definition keptKeys :: "jsstring \<Rightarrow> jsstring list \<Rightarrow> jsstring set" where
  "keptKeys code refrenceKeys =
     set (filter (\<lambda>item. item \<notin> set (unusedKeys code refrenceKeys)) refrenceKeys)"

section \<open>JSON.stringify\<close>

text \<open>
  \<^verbatim>\<open>JSON.stringify(json, null, 2)\<close> for an object whose values are strings
  (SerializeJSONObject with the gap of two spaces). QuoteJSONString escapes the double
  quote, the backslash and the control characters, and writes a surrogate that has no
  partner as \<^verbatim>\<open>\uXXXX\<close>; a surrogate pair and every other code unit are copied.
\<close>

definition BACKSLASH :: "16 word" where "BACKSLASH = 0x5C"
definition LF :: "16 word" where "LF = 0x0A"

definition is_lead_surrogate :: "16 word \<Rightarrow> bool" where
  "is_lead_surrogate c \<longleftrightarrow> 0xD800 \<le> c \<and> c \<le> 0xDBFF"

definition is_trail_surrogate :: "16 word \<Rightarrow> bool" where
  "is_trail_surrogate c \<longleftrightarrow> 0xDC00 \<le> c \<and> c \<le> 0xDFFF"

definition hex_digit :: "nat \<Rightarrow> 16 word" where
  "hex_digit n = (if n < 10 then of_nat (48 + n) else of_nat (87 + n))"

definition UnicodeEscape :: "16 word \<Rightarrow> jsstring" where
  "UnicodeEscape c =
     [BACKSLASH, 0x75, hex_digit (unat c div 4096), hex_digit (unat c div 256 mod 16),
      hex_digit (unat c div 16 mod 16), hex_digit (unat c mod 16)]"

text \<open>A code unit that is not a surrogate.\<close>

definition quote_unit :: "16 word \<Rightarrow> jsstring" where
  "quote_unit c =
     (if c = 0x08 then [BACKSLASH, 0x62]
      else if c = 0x09 then [BACKSLASH, 0x74]
      else if c = 0x0A then [BACKSLASH, 0x6E]
      else if c = 0x0C then [BACKSLASH, 0x66]
      else if c = 0x0D then [BACKSLASH, 0x72]
      else if c = DQUOTE then [BACKSLASH, DQUOTE]
      else if c = BACKSLASH then [BACKSLASH, BACKSLASH]
      else if c < 0x20 then UnicodeEscape c
      else [c])"

fun quote_units :: "jsstring \<Rightarrow> jsstring" where
  "quote_units [] = []"
| "quote_units [c] =
     (if is_lead_surrogate c \<or> is_trail_surrogate c then UnicodeEscape c else quote_unit c)"
| "quote_units (c # d # cs) =
     (if is_lead_surrogate c \<and> is_trail_surrogate d then c # d # quote_units cs
      else if is_lead_surrogate c \<or> is_trail_surrogate c then UnicodeEscape c @ quote_units (d # cs)
      else quote_unit c @ quote_units (d # cs))"

definition QuoteJSONString :: "jsstring \<Rightarrow> jsstring" where
  "QuoteJSONString s = [DQUOTE] @ quote_units s @ [DQUOTE]"

definition json_member :: "jsstring \<times> jsstring \<Rightarrow> jsstring" where
  "json_member = (\<lambda>(key, v). QuoteJSONString key @ js '': '' @ QuoteJSONString v)"

definition JSON_stringify :: "jsstring jsobject \<Rightarrow> jsstring" where
  "JSON_stringify json =
     (if json = [] then js ''{}''
      else js ''{'' @ [LF] @ js ''  '' @ join (map json_member json) ([0x2C, LF] @ js ''  '')
           @ [LF] @ js ''}'')"

section \<open>The process and its surroundings\<close>

text \<open>
  What the program reads and changes. \<open>fs\<close> holds, for each project name, the directory
  \<^verbatim>\<open>packages/<name>/src/locales\<close> under the working directory: its files, each with
  its content. \<open>console\<close> is what was printed, \<open>writes\<close>
  the calls of \<^verbatim>\<open>fs.writeFileSync\<close> (project name, file name, data) and \<open>uploads\<close>
  the files sent to the remote service (project id, file name, content), all in order.
\<close>

datatype printed = Stdout jsstring | Stderr jsstring

type_synonym directory = "(jsstring \<times> jsstring) list"

record world =
  fs :: "(jsstring \<times> directory) list"
  console :: "printed list"
  writes :: "(jsstring \<times> jsstring \<times> jsstring) list"
  uploads :: "(jsstring \<times> jsstring \<times> jsstring) list"

text \<open>The type \<^verbatim>\<open>Project\<close>; \<open>project_id\<close> is its field \<^verbatim>\<open>id\<close>.\<close>

record project =
  name :: jsstring
  project_id :: jsstring
  defaultLocale :: jsstring
  paths_src :: jsstring
  paths_locales :: jsstring

text \<open>
  What the program calls and does not define: \<^verbatim>\<open>os.EOL\<close>; \<^verbatim>\<open>JSON.parse\<close> on the
  content of a locale file (\<open>None\<close>: it throws); \<^verbatim>\<open>parse\<close> of the ICU message parser
  (\<open>Some\<close> of the text of the error it throws, \<open>None\<close> when it accepts the message);
  the download of lines 119 to 156, which gives the unpacked bundle (\<open>None\<close>: the request,
  the archive or an entry fails); and whether an upload succeeds. The colours of
  \<^verbatim>\<open>chalk\<close> are left out of the printed lines.
\<close>

record env =
  EOL :: jsstring
  JSON_parse :: "jsstring \<Rightarrow> localeMap option"
  parse :: "jsstring \<Rightarrow> jsstring option"
  download :: "project \<Rightarrow> pulled option"
  upload_ok :: "jsstring \<Rightarrow> jsstring \<Rightarrow> jsstring \<Rightarrow> bool"

text \<open>
  A step of the program returns a value, ends the process with \<^verbatim>\<open>process.exit\<close>, or
  throws; in each case the world is as the step left it. The fourth outcome is that of
  a step that is about to assign a property of a built-in object of the language
  (\<open>assigns_builtin\<close>). What the assignment does depends on the object and the key (on
  a function the keys \<^verbatim>\<open>name\<close> and \<^verbatim>\<open>length\<close> throw, on \<^verbatim>\<open>Object\<close> the key
  \<^verbatim>\<open>keys\<close> replaces \<^verbatim>\<open>Object.keys\<close>), and what the rest of the program does
  after it depends on every user of that object: a run is not followed beyond that
  point, and the world of this outcome is the world at that point.
\<close>

datatype 'a outcome = Value 'a | Exit nat | Throw | Builtin_changed

type_synonym 'a action = "world \<Rightarrow> 'a outcome \<times> world"

definition ret :: "'a \<Rightarrow> 'a action" where
  "ret x w = (Value x, w)"

definition throw :: "'a action" where
  "throw w = (Throw, w)"

definition process_exit :: "nat \<Rightarrow> 'a action" where
  "process_exit n w = (Exit n, w)"

definition builtin_changed :: "'a action" where
  "builtin_changed w = (Builtin_changed, w)"

definition seq :: "'a action \<Rightarrow> ('a \<Rightarrow> 'b action) \<Rightarrow> 'b action" where
  "seq m f w =
     (case m w of
        (Value x, w') \<Rightarrow> f x w'
      | (Exit n, w') \<Rightarrow> (Exit n, w')
      | (Throw, w') \<Rightarrow> (Throw, w')
      | (Builtin_changed, w') \<Rightarrow> (Builtin_changed, w'))"

fun forEach :: "'a list \<Rightarrow> ('a \<Rightarrow> unit action) \<Rightarrow> unit action" where
  "forEach [] f = ret ()"
| "forEach (x # xs) f = seq (f x) (\<lambda>_. forEach xs f)"

definition console_log :: "jsstring \<Rightarrow> unit action" where
  "console_log line w = (Value (), w\<lparr>console := console w @ [Stdout line]\<rparr>)"

definition console_error :: "jsstring \<Rightarrow> unit action" where
  "console_error line w = (Value (), w\<lparr>console := console w @ [Stderr line]\<rparr>)"

definition readFileSync :: "jsstring \<Rightarrow> jsstring \<Rightarrow> jsstring action" where
  "readFileSync projectName file w =
     (case map_of (fs w) projectName of
        None \<Rightarrow> (Throw, w)
      | Some dir \<Rightarrow>
          (case map_of dir file of
             None \<Rightarrow> (Throw, w)
           | Some content \<Rightarrow> (Value content, w)))"

text \<open>
  \<^verbatim>\<open>fs.readdirSync\<close> gives the names of a directory in ascending order of their
  UTF-8 bytes (the entries are scanned with a comparison of the names byte by byte),
  which is the order of their sequences of code points; a surrogate pair is one code
  point.
\<close>

fun code_points :: "jsstring \<Rightarrow> nat list" where
  "code_points [] = []"
| "code_points [c] = [unat c]"
| "code_points (c # d # cs) =
     (if is_lead_surrogate c \<and> is_trail_surrogate d
      then (65536 + (unat c - 55296) * 1024 + (unat d - 56320)) # code_points cs
      else unat c # code_points (d # cs))"

definition readdirSync :: "jsstring \<Rightarrow> jsstring list action" where
  "readdirSync projectName w =
     (case map_of (fs w) projectName of
        None \<Rightarrow> (Throw, w)
      | Some dir \<Rightarrow> (Value (sort_key code_points (map fst dir)), w))"

definition writeFileSync :: "jsstring \<Rightarrow> jsstring \<Rightarrow> jsstring \<Rightarrow> unit action" where
  "writeFileSync projectName file data w =
     (case map_of (fs w) projectName of
        None \<Rightarrow> (Throw, w)
      | Some dir \<Rightarrow>
          (Value (),
           w\<lparr>fs := AList.update projectName (AList.update file data dir) (fs w),
             writes := writes w @ [(projectName, file, data)]\<rparr>))"

definition JSON_parse_file :: "env \<Rightarrow> jsstring \<Rightarrow> localeMap action" where
  "JSON_parse_file e content =
     (case JSON_parse e content of
        None \<Rightarrow> throw
      | Some json \<Rightarrow> ret json)"

text \<open>
  \<^verbatim>\<open>path.extname(item) === ".json"\<close> for a file name: the name ends with \<^verbatim>\<open>.json\<close>
  and that dot is not its first character. For such a name
  \<^verbatim>\<open>path.basename(item, ".json")\<close> drops the five last code units.
\<close>

definition extname_is_json :: "jsstring \<Rightarrow> bool" where
  "extname_is_json item \<longleftrightarrow> 5 < length item \<and> drop (length item - 5) item = js ''.json''"

definition basename_json :: "jsstring \<Rightarrow> jsstring" where
  "basename_json item = take (length item - 5) item"

text \<open>\<^verbatim>\<open>path.relative(process.cwd(), ...)\<close> of a file of the locales directory.\<close>

definition displayFilePath :: "project \<Rightarrow> jsstring \<Rightarrow> jsstring" where
  "displayFilePath p file = js ''packages/'' @ name p @ js ''/src/locales/'' @ file"

section \<open>lintProject\<close>

definition lintLocalesFile :: "env \<Rightarrow> localeMap \<Rightarrow> (jsstring \<times> jsstring) list option" where
  "lintLocalesFile e json =
     (let errors = concat (map (\<lambda>(key, v). case parse e v of
                                                None \<Rightarrow> []
                                              | Some error \<Rightarrow> [(key, error)]) json)
      in if errors = [] then None else Some errors)"

text \<open>
  The callback of the \<^verbatim>\<open>forEach\<close> of \<^verbatim>\<open>lintProject\<close> over the files that are left;
  the variable \<^verbatim>\<open>isOk\<close> that it assigns is passed along.
\<close>

fun lintFiles :: "env \<Rightarrow> project \<Rightarrow> jsstring list \<Rightarrow> bool \<Rightarrow> bool action" where
  "lintFiles e p [] isOk = ret isOk"
| "lintFiles e p (locale # rest) isOk =
     seq (readFileSync (name p) locale) (\<lambda>content.
     seq (JSON_parse_file e content) (\<lambda>locales.
       case lintLocalesFile e locales of
         None \<Rightarrow> lintFiles e p rest isOk
       | Some errors \<Rightarrow>
           seq (console_log (displayFilePath p locale @ js '' errors'')) (\<lambda>_.
           seq (forEach errors (\<lambda>(key, error). console_log (js ''  '' @ key @ js '': '' @ error))) (\<lambda>_.
           lintFiles e p rest False))))"

definition lintProject :: "env \<Rightarrow> project \<Rightarrow> bool action" where
  "lintProject e p =
     seq (readdirSync (name p)) (\<lambda>items.
     lintFiles e p (filter extname_is_json items) True)"

section \<open>cleanupProject\<close>

text \<open>The callback of the \<^verbatim>\<open>forEach\<close> of \<^verbatim>\<open>cleanupProject\<close> (lines 322 to 338).\<close>

definition cleanupFile :: "env \<Rightarrow> project \<Rightarrow> jsstring set \<Rightarrow> jsstring \<Rightarrow> unit action" where
  "cleanupFile e p allowedKeys locale =
     seq (readFileSync (name p) locale) (\<lambda>rawFile.
     seq (JSON_parse_file e rawFile) (\<lambda>json.
     seq (console_log (displayFilePath p locale @ js '' cleaned'')) (\<lambda>_.
       if rawFile \<noteq> JSON_stringify (cleanupJson json allowedKeys) @ EOL e
       then writeFileSync (name p) locale (JSON_stringify (cleanupJson json allowedKeys) @ EOL e)
       else ret ())))"

definition cleanupProject :: "env \<Rightarrow> project \<Rightarrow> unit action" where
  "cleanupProject e p =
     seq (readFileSync (name p) (js ''en.json'')) (\<lambda>content.
     seq (JSON_parse_file e content) (\<lambda>referenceJson.
     seq (readdirSync (name p)) (\<lambda>items.
     forEach (filter extname_is_json items) (cleanupFile e p (set (Object_keys referenceJson))))))"

section \<open>pullProject\<close>

text \<open>The callback that writes one locale of the merged bundle (lines 194 to 206).\<close>

definition writePulled :: "env \<Rightarrow> project \<Rightarrow> jsstring \<times> localeMap \<Rightarrow> unit action" where
  "writePulled e p = (\<lambda>(localeName, json).
     seq (console_log (displayFilePath p (localeName @ js ''.json'') @ js '' pulled'')) (\<lambda>_.
     writeFileSync (name p) (localeName @ js ''.json'') (JSON_stringify json @ EOL e)))"

definition download_bundle :: "env \<Rightarrow> project \<Rightarrow> pulled action" where
  "download_bundle e p =
     (case download e p of
        None \<Rightarrow> throw
      | Some pulledLocales \<Rightarrow> ret pulledLocales)"

text \<open>Lines 193 to 216: the files are written, cleaned and linted.\<close>

definition pullProject_write :: "env \<Rightarrow> project \<Rightarrow> pulled \<Rightarrow> unit action" where
  "pullProject_write e p merged =
     seq (forEach merged (writePulled e p)) (\<lambda>_.
     seq (console_log []) (\<lambda>_.
     seq (cleanupProject e p) (\<lambda>_.
     seq (console_log []) (\<lambda>_.
     seq (lintProject e p) (\<lambda>isOk.
     if \<not> isOk then process_exit 1 else ret ())))))"

text \<open>
  Lines 111 to 191, then the rest. A default locale that names a member of
  \<^verbatim>\<open>Object.prototype\<close> and is no locale of the bundle passes the test of line 164;
  with a local reference that has keys, lines 182 to 184 then assign them on that
  member.
\<close>

definition pullProject :: "env \<Rightarrow> project \<Rightarrow> unit action" where
  "pullProject e p =
     seq (readFileSync (name p) (js ''en.json'')) (\<lambda>content.
     seq (JSON_parse_file e content) (\<lambda>localTranslations.
     seq (download_bundle e p) (\<lambda>pulledLocales.
       if assigns_builtin (defaultLocale p) localTranslations pulledLocales then builtin_changed
       else
         case reconcile (defaultLocale p) localTranslations pulledLocales of
           None \<Rightarrow> console_error (name p @ js '' is missing translations for its default locale'')
         | Some merged \<Rightarrow> pullProject_write e p merged)))"

section \<open>pushProject\<close>

definition upload_file :: "env \<Rightarrow> project \<Rightarrow> jsstring \<Rightarrow> jsstring \<Rightarrow> unit action" where
  "upload_file e p file content w =
     (if upload_ok e (project_id p) file content
      then (Value (), w\<lparr>uploads := uploads w @ [(project_id p, file, content)]\<rparr>)
      else (Throw, w))"

text \<open>The body of the loop over the files (lines 246 to 272).\<close>

definition pushFile :: "env \<Rightarrow> project \<Rightarrow> jsstring \<Rightarrow> unit action" where
  "pushFile e p file =
     seq (readFileSync (name p) (basename_json file @ js ''.json'')) (\<lambda>locales.
     seq (upload_file e p (basename_json file @ js ''.json'') locales) (\<lambda>_.
     console_log (displayFilePath p (basename_json file) @ js '' uploaded'')))"

definition pushProject :: "env \<Rightarrow> project \<Rightarrow> unit action" where
  "pushProject e p =
     seq (cleanupProject e p) (\<lambda>_.
     seq (console_log []) (\<lambda>_.
     seq (lintProject e p) (\<lambda>isOk.
     if \<not> isOk then process_exit 1
     else
       seq (console_log []) (\<lambda>_.
       seq (readdirSync (name p)) (\<lambda>items.
       forEach (filter extname_is_json items) (pushFile e p))))))"

section \<open>onlyKeepKeysInJson\<close>

text \<open>The reducer of lines 406 to 414; \<^verbatim>\<open>acc[key] = json[key]\<close> is an assignment.\<close>

definition jsonWithoutKeys :: "localeMap \<Rightarrow> jsstring set \<Rightarrow> localeMap" where
  "jsonWithoutKeys json keysToKeep =
     foldl (\<lambda>acc key. if key \<in> keysToKeep
                        then (case obj_get json key of
                                None \<Rightarrow> acc
                              | Some v \<Rightarrow> obj_assign acc key v)
                        else acc)
       [] (Object_keys json)"

definition onlyKeepKeysInJson :: "env \<Rightarrow> project \<Rightarrow> jsstring \<Rightarrow> jsstring set \<Rightarrow> unit action" where
  "onlyKeepKeysInJson e p file keysToKeep =
     seq (readFileSync (name p) file) (\<lambda>content.
     seq (JSON_parse_file e content) (\<lambda>json.
     seq (writeFileSync (name p) file (JSON_stringify (jsonWithoutKeys json keysToKeep) @ EOL e)) (\<lambda>_.
     console_log (displayFilePath p file @ js '' cleaned''))))"

section \<open>The commands\<close>

definition pull_project_run :: "env \<Rightarrow> project \<Rightarrow> unit action" where
  "pull_project_run e p =
     seq (console_log (name p)) (\<lambda>_.
     seq (console_log (js ''---'')) (\<lambda>_.
     seq (pullProject e p) (\<lambda>_.
     seq (console_log []) (\<lambda>_.
     console_log []))))"

definition pull_command :: "env \<Rightarrow> project list \<Rightarrow> unit action" where
  "pull_command e projects = forEach projects (pull_project_run e)"

definition push_project_run :: "env \<Rightarrow> project \<Rightarrow> unit action" where
  "push_project_run e p =
     seq (console_log (name p)) (\<lambda>_.
     seq (console_log (js ''---'')) (\<lambda>_.
     seq (pushProject e p) (\<lambda>_.
     seq (console_log []) (\<lambda>_.
     console_log []))))"

definition push_command :: "env \<Rightarrow> project list \<Rightarrow> unit action" where
  "push_command e projects = forEach projects (push_project_run e)"

text \<open>The loop of the \<^verbatim>\<open>lint\<close> command; its variable \<^verbatim>\<open>hasError\<close> is passed along.\<close>

fun lint_projects :: "env \<Rightarrow> project list \<Rightarrow> bool \<Rightarrow> bool action" where
  "lint_projects e [] hasError = ret hasError"
| "lint_projects e (p # projects) hasError =
     seq (lintProject e p) (\<lambda>isOk.
       if \<not> isOk
       then seq (console_log []) (\<lambda>_.
            seq (console_log []) (\<lambda>_.
            lint_projects e projects True))
       else lint_projects e projects hasError)"

definition lint_command :: "env \<Rightarrow> project list \<Rightarrow> unit action" where
  "lint_command e projects =
     seq (lint_projects e projects False) (\<lambda>hasError.
     if hasError then process_exit 1 else ret ())"


section \<open>The specification's wording\<close>

text \<open>
  The definitions of this section follow the sentences of the specification, not the
  code; the theorems compare them with the definitions above.

  The Normalizer: ``replace every run of one-or-more tab characters with a single space'':
  a tab that is followed by a tab disappears, the last tab of a run becomes the space.
\<close>

fun spec_collapse_tabs :: "jsstring \<Rightarrow> jsstring" where
  "spec_collapse_tabs [] = []"
| "spec_collapse_tabs [c] = (if c = TAB then [SPACE] else [c])"
| "spec_collapse_tabs (c # d # cs) =
     (if c = TAB \<and> d = TAB then spec_collapse_tabs (d # cs)
      else if c = TAB then SPACE # spec_collapse_tabs (d # cs)
      else c # spec_collapse_tabs (d # cs))"

text \<open>``Strip all leading whitespace; strip all trailing whitespace.''\<close>

definition spec_strip_leading :: "jsstring \<Rightarrow> jsstring" where
  "spec_strip_leading v = dropWhile is_space v"

definition spec_strip_trailing :: "jsstring \<Rightarrow> jsstring" where
  "spec_strip_trailing v = rev (dropWhile is_space (rev v))"

definition spec_normalize_value :: "jsstring \<Rightarrow> jsstring" where
  "spec_normalize_value v = spec_strip_trailing (spec_strip_leading (spec_collapse_tabs v))"

text \<open>
  The same three steps, the two strips each behind the test the code makes first: the
  value begins, respectively ends, with the space U+0020.
\<close>

definition guarded_normalize_value :: "jsstring \<Rightarrow> jsstring" where
  "guarded_normalize_value v =
     (let t = spec_collapse_tabs v;
          l = (if startsWith_space t then spec_strip_leading t else t)
      in if endsWith_space l then spec_strip_trailing l else l)"

text \<open>
  The Usage Scanner: \<open>k1\<close> is ``all but the last dot-delimited segment of \<open>k\<close>, joined
  with a trailing \<^verbatim>\<open>.${\<close>'', \<open>k2\<close> ``all but the last two''; \<open>k\<close> is used when the
  source contains \<open>k\<close> in double quotes, single quotes or backticks, or a backtick
  followed by \<open>k1\<close> or by \<open>k2\<close>.

  These definitions are written on the code units and use none of the functions that
  model the code: the dot is U+002E, the double quote U+0022, the single quote U+0027,
  the backtick U+0060, and \<^verbatim>\<open>.${\<close> is U+002E U+0024 U+007B. The segments of a key are
  read from left to right, a dot closing the segment that is being read; segments are
  joined with a dot before every segment but the first; a text contains a string when
  the string stands at one of the positions of the text.
\<close>

fun spec_segments_from :: "jsstring \<Rightarrow> jsstring \<Rightarrow> jsstring list" where
  "spec_segments_from seg [] = [seg]"
| "spec_segments_from seg (c # cs) =
     (if c = 0x2E then seg # spec_segments_from [] cs else spec_segments_from (seg @ [c]) cs)"

definition spec_segments :: "jsstring \<Rightarrow> jsstring list" where
  "spec_segments k = spec_segments_from [] k"

definition spec_joined :: "jsstring list \<Rightarrow> jsstring" where
  "spec_joined segs =
     (case segs of
        [] \<Rightarrow> []
      | s # rest \<Rightarrow> s @ concat (map (\<lambda>t. 0x2E # t) rest))"

definition spec_k1 :: "jsstring \<Rightarrow> jsstring" where
  "spec_k1 k = spec_joined (butlast (spec_segments k)) @ [0x2E, 0x24, 0x7B]"

definition spec_k2 :: "jsstring \<Rightarrow> jsstring" where
  "spec_k2 k = spec_joined (butlast (butlast (spec_segments k))) @ [0x2E, 0x24, 0x7B]"

definition spec_contains :: "jsstring \<Rightarrow> jsstring \<Rightarrow> bool" where
  "spec_contains sourceText t \<longleftrightarrow>
     list_ex (\<lambda>i. take (length t) (drop i sourceText) = t) [0..<Suc (length sourceText)]"

definition spec_used :: "jsstring \<Rightarrow> jsstring \<Rightarrow> bool" where
  "spec_used sourceText k \<longleftrightarrow>
     spec_contains sourceText ([0x22] @ k @ [0x22]) \<or>
     spec_contains sourceText ([0x27] @ k @ [0x27]) \<or>
     spec_contains sourceText ([0x60] @ k @ [0x60]) \<or>
     spec_contains sourceText ([0x60] @ spec_k1 k) \<or>
     spec_contains sourceText ([0x60] @ spec_k2 k)"

text \<open>The value that a bundle holds for a key in a locale, if any.\<close>

definition pulled_value :: "pulled \<Rightarrow> jsstring \<Rightarrow> jsstring \<Rightarrow> jsstring option" where
  "pulled_value pulledLocales localeName key =
     (case obj_get pulledLocales localeName of
        None \<Rightarrow> None
      | Some json \<Rightarrow> obj_get json key)"


section \<open>Observations on runs\<close>

text \<open>
  A world with the given files in which nothing has been printed, written or uploaded,
  and what \<^verbatim>\<open>lintProject\<close> returns and prints for a project on given files.
\<close>

definition blank_world :: "(jsstring \<times> directory) list \<Rightarrow> world" where
  "blank_world files = \<lparr>fs = files, console = [], writes = [], uploads = []\<rparr>"

definition lint_result :: "env \<Rightarrow> project \<Rightarrow> (jsstring \<times> directory) list \<Rightarrow> bool outcome" where
  "lint_result e p files = fst (lintProject e p (blank_world files))"

definition lint_report :: "env \<Rightarrow> project \<Rightarrow> (jsstring \<times> directory) list \<Rightarrow> printed list" where
  "lint_report e p files = console (snd (lintProject e p (blank_world files)))"

text \<open>
  A step that returns or throws (it neither ends the process nor touches a built-in
  object), a step that only reads files and prints, and a step that leaves the files as
  they are.
\<close>

definition ordinary :: "'a action \<Rightarrow> bool" where
  "ordinary m \<longleftrightarrow> (\<forall>w. fst (m w) \<noteq> Builtin_changed \<and> (\<forall>n. fst (m w) \<noteq> Exit n))"

definition keeps_fs :: "'a action \<Rightarrow> bool" where
  "keeps_fs m \<longleftrightarrow> (\<forall>w. fs (snd (m w)) = fs w)"

definition reads_only :: "'a action \<Rightarrow> bool" where
  "reads_only m \<longleftrightarrow>
     (\<forall>w :: world. \<exists>r ls. \<forall>w'. fs w' = fs w \<longrightarrow> m w' = (r, w'\<lparr>console := console w' @ ls\<rparr>))"

text \<open>
  The lines of a serialized object between the braces: every member on a line of its
  own behind two spaces, a comma after every member but the last.
\<close>

fun member_lines :: "jsstring jsobject \<Rightarrow> jsstring list" where
  "member_lines [] = []"
| "member_lines [m] = [js ''  '' @ json_member m]"
| "member_lines (m # n # ms) = (js ''  '' @ json_member m @ js '','') # member_lines (n # ms)"

text \<open>
  Surroundings for the example runs: a POSIX system (\<^verbatim>\<open>os.EOL\<close> is a line feed) on
  which \<^verbatim>\<open>JSON.parse\<close> knows the listed file contents, the remote service answers every
  download with the same bundle and takes every upload; a project with the default
  locale \<^verbatim>\<open>en\<close>; a message parser that rejects the message \<^verbatim>\<open>{\<close>.
\<close>

definition posix_env ::
  "(jsstring \<times> localeMap) list \<Rightarrow> (jsstring \<Rightarrow> jsstring option) \<Rightarrow> pulled \<Rightarrow> env" where
  "posix_env files icu remote =
     \<lparr>EOL = [LF], JSON_parse = map_of files, parse = icu,
      download = (\<lambda>p. Some remote), upload_ok = (\<lambda>i f c. True)\<rparr>"

definition project_named :: "jsstring \<Rightarrow> project" where
  "project_named n =
     \<lparr>name = n, project_id = n, defaultLocale = js ''en'', paths_src = [], paths_locales = []\<rparr>"

definition reject_brace :: "jsstring \<Rightarrow> jsstring option" where
  "reject_brace v = (if v = js ''{'' then Some (js ''SyntaxError'') else None)"


section \<open>Lemmas\<close>

lemma startsWith_iff: "startsWith s t \<longleftrightarrow> (\<exists>ss. s = t @ ss)"
  by (induction s t rule: startsWith.induct) auto

lemma includes_js_iff: "includes_js s t \<longleftrightarrow> (\<exists>ps ss. s = ps @ t @ ss)"
proof (induction s)
  case Nil
  then show ?case by auto
next
  case (Cons c cs)
  show ?case
  proof
    assume "includes_js (c # cs) t"
    then consider "startsWith (c # cs) t" | "includes_js cs t" by auto
    then show "\<exists>ps ss. c # cs = ps @ t @ ss"
    proof cases
      case 1
      then obtain ss where "c # cs = t @ ss" by (auto simp: startsWith_iff)
      then have "c # cs = [] @ t @ ss" by simp
      then show ?thesis by blast
    next
      case 2
      then obtain ps ss where "cs = ps @ t @ ss" using Cons.IH by blast
      then have "c # cs = (c # ps) @ t @ ss" by simp
      then show ?thesis by blast
    qed
  next
    assume "\<exists>ps ss. c # cs = ps @ t @ ss"
    then obtain ps ss where eq: "c # cs = ps @ t @ ss" by blast
    show "includes_js (c # cs) t"
    proof (cases ps)
      case Nil
      with eq have "startsWith (c # cs) t" by (auto simp: startsWith_iff)
      then show ?thesis by simp
    next
      case (Cons p ps')
      with eq have "cs = ps' @ t @ ss" by simp
      then have "includes_js cs t" using Cons.IH by blast
      then show ?thesis by simp
    qed
  qed
qed

lemma split_js_not_Nil: "split_js k sep \<noteq> []"
  by (induction k) (auto split: list.splits)

lemma slice_js_butlast: "slice_js xs 0 (- 1) = butlast xs"
  by (simp add: slice_js_def Let_def butlast_conv_take nat_diff_distrib' max_def)

lemma slice_js_butlast2: "slice_js xs 0 (- 2) = butlast (butlast xs)"
  by (simp add: slice_js_def Let_def butlast_conv_take nat_diff_distrib' max_def min_def numeral_2_eq_2)

lemma includes_js_contains: "includes_js s t \<longleftrightarrow> spec_contains s t"
proof
  assume "includes_js s t"
  then obtain ps ss where s: "s = ps @ t @ ss" by (auto simp: includes_js_iff)
  then have "take (length t) (drop (length ps) s) = t" by simp
  moreover from s have "length ps \<in> set [0..<Suc (length s)]" by simp
  ultimately show "spec_contains s t"
    unfolding spec_contains_def list_ex_iff by blast
next
  assume "spec_contains s t"
  then obtain i where i: "take (length t) (drop i s) = t"
    unfolding spec_contains_def list_ex_iff by blast
  have "s = take i s @ drop i s" by simp
  also have "drop i s = take (length t) (drop i s) @ drop (length t) (drop i s)"
    by (simp only: append_take_drop_id)
  finally have "s = take i s @ t @ drop (length t) (drop i s)" using i by simp
  then show "includes_js s t" unfolding includes_js_iff by blast
qed

lemma segments_from_split:
  "spec_segments_from seg cs = (seg @ hd (split_js cs DOT)) # tl (split_js cs DOT)"
proof (induction cs arbitrary: seg)
  case Nil
  then show ?case by simp
next
  case (Cons c cs)
  obtain x xs where x: "split_js cs DOT = x # xs"
    using split_js_not_Nil [of cs DOT] by (cases "split_js cs DOT") auto
  show ?case
  proof (cases "c = DOT")
    case True
    then have "spec_segments_from seg (c # cs) = seg # spec_segments_from [] cs"
      by (simp add: DOT_def)
    also have "\<dots> = seg # x # xs" by (simp add: Cons.IH x)
    finally show ?thesis using True x by simp
  next
    case False
    then have "spec_segments_from seg (c # cs) = spec_segments_from (seg @ [c]) cs"
      by (simp add: DOT_def)
    also have "\<dots> = (seg @ c # x) # xs" by (simp add: Cons.IH x)
    finally show ?thesis using False x by simp
  qed
qed

lemma split_js_segments: "split_js k DOT = spec_segments k"
  using split_js_not_Nil [of k DOT]
  by (cases "split_js k DOT") (auto simp: spec_segments_def segments_from_split)

lemma join_joined: "join segs [0x2E] = spec_joined segs"
  by (induction segs "[0x2E :: 16 word]" rule: join.induct) (auto simp: spec_joined_def)

lemma variantKey1_spec: "variantKey1 k = spec_k1 k"
  by (simp add: variantKey1_def spec_k1_def slice_js_butlast split_js_segments join_joined js_def)

lemma variantKey2_spec: "variantKey2 k = spec_k2 k"
  by (simp add: variantKey2_def spec_k2_def slice_js_butlast2 split_js_segments join_joined js_def)

lemma isUnused_spec: "isUnused code k \<longleftrightarrow> \<not> spec_used code k"
  by (auto simp: isUnused_def spec_used_def variantKey1_spec variantKey2_spec includes_js_contains
      DQUOTE_def SQUOTE_def BACKTICK_def)

lemma replace_TAB_REGEX_spec: "replace_TAB_REGEX v = spec_collapse_tabs v"
  by (induction v rule: spec_collapse_tabs.induct) auto

lemma spec_collapse_tabs_no_tab: "TAB \<notin> set v \<Longrightarrow> spec_collapse_tabs v = v"
  by (induction v rule: spec_collapse_tabs.induct) auto

lemma spec_collapse_tabs_free: "TAB \<notin> set (spec_collapse_tabs v)"
  by (induction v rule: spec_collapse_tabs.induct) (auto simp: TAB_def SPACE_def)

lemma replace_LEADING_spec: "replace_LEADING_SPACE_REGEX v = spec_strip_leading v"
  by (induction v) (auto simp: spec_strip_leading_def)

lemma replace_TRAILING_append:
  "replace_TRAILING_SPACE_REGEX (xs @ [c]) =
     (if is_space c then replace_TRAILING_SPACE_REGEX xs else xs @ [c])"
  by (induction xs) auto

lemma replace_TRAILING_spec: "replace_TRAILING_SPACE_REGEX v = spec_strip_trailing v"
  by (induction v rule: rev_induct) (auto simp: spec_strip_trailing_def replace_TRAILING_append)

lemma cleanupValue_guarded: "cleanupValue v = guarded_normalize_value v"
  by (simp add: cleanupValue_def guarded_normalize_value_def Let_def replace_TAB_REGEX_spec
      replace_LEADING_spec replace_TRAILING_spec spec_collapse_tabs_no_tab)

lemma startsWith_space_iff: "startsWith_space v \<longleftrightarrow> (\<exists>cs. v = SPACE # cs)"
  by (cases v) auto

lemma endsWith_space_iff: "endsWith_space v \<longleftrightarrow> (\<exists>cs. v = cs @ [SPACE])"
proof (induction v rule: endsWith_space.induct)
  case 1
  then show ?case by simp
next
  case (2 c)
  then show ?case by auto
next
  case (3 c d cs)
  have "(\<exists>xs. c # d # cs = xs @ [SPACE]) \<longleftrightarrow> (\<exists>ys. d # cs = ys @ [SPACE])"
  proof
    assume "\<exists>xs. c # d # cs = xs @ [SPACE]"
    then obtain xs where eq: "c # d # cs = xs @ [SPACE]" by blast
    then obtain ys where "xs = c # ys" by (cases xs) auto
    with eq show "\<exists>ys. d # cs = ys @ [SPACE]" by auto
  next
    assume "\<exists>ys. d # cs = ys @ [SPACE]"
    then obtain ys where "d # cs = ys @ [SPACE]" by blast
    then have "c # d # cs = (c # ys) @ [SPACE]" by simp
    then show "\<exists>xs. c # d # cs = xs @ [SPACE]" by blast
  qed
  with 3 show ?case by simp
qed

lemma is_space_SPACE: "is_space SPACE"
  by (simp add: is_space_def SPACE_def)

lemma is_space_TAB: "is_space TAB"
  by (simp add: is_space_def TAB_def)

lemma strip_leading_not_space: "\<not> startsWith_space (spec_strip_leading v)"
proof
  assume "startsWith_space (spec_strip_leading v)"
  then obtain cs where eq: "dropWhile is_space v = SPACE # cs"
    by (auto simp: startsWith_space_iff spec_strip_leading_def)
  then have "\<not> is_space SPACE" using hd_dropWhile [of is_space v] by auto
  then show False by (simp add: is_space_SPACE)
qed

lemma strip_trailing_not_space: "\<not> endsWith_space (spec_strip_trailing v)"
proof
  assume "endsWith_space (spec_strip_trailing v)"
  then obtain cs where "rev (dropWhile is_space (rev v)) = cs @ [SPACE]"
    by (auto simp: endsWith_space_iff spec_strip_trailing_def)
  then have eq: "dropWhile is_space (rev v) = SPACE # rev cs"
    by (metis rev_rev_ident rev.simps(2) rev_append append_Nil rev.simps(1) append_Cons)
  then have "\<not> is_space SPACE" using hd_dropWhile [of is_space "rev v"] by auto
  then show False by (simp add: is_space_SPACE)
qed

lemma strip_trailing_prefix: "\<exists>ss. v = spec_strip_trailing v @ ss"
proof -
  have "rev v = takeWhile is_space (rev v) @ dropWhile is_space (rev v)" by simp
  then have "v = rev (dropWhile is_space (rev v)) @ rev (takeWhile is_space (rev v))"
    by (metis rev_append rev_rev_ident)
  then show ?thesis by (auto simp: spec_strip_trailing_def)
qed

lemma strip_trailing_keeps_start:
  "\<not> startsWith_space v \<Longrightarrow> \<not> startsWith_space (spec_strip_trailing v)"
proof -
  assume ns: "\<not> startsWith_space v"
  obtain ss where eq: "v = spec_strip_trailing v @ ss" using strip_trailing_prefix by blast
  show ?thesis
  proof
    assume "startsWith_space (spec_strip_trailing v)"
    then obtain cs where "spec_strip_trailing v = SPACE # cs" by (auto simp: startsWith_space_iff)
    with eq have "v = SPACE # (cs @ ss)" by simp
    with ns show False by (simp add: startsWith_space_iff)
  qed
qed

lemma set_strip_leading: "set (spec_strip_leading v) \<subseteq> set v"
  by (auto simp: spec_strip_leading_def dest: set_dropWhileD)

lemma set_strip_trailing: "set (spec_strip_trailing v) \<subseteq> set v"
  by (auto simp: spec_strip_trailing_def dest: set_dropWhileD)

lemma guarded_no_tab: "TAB \<notin> set (guarded_normalize_value v)"
  using spec_collapse_tabs_free [of v] set_strip_leading set_strip_trailing
  by (auto simp: guarded_normalize_value_def Let_def)

lemma guarded_not_starts: "\<not> startsWith_space (guarded_normalize_value v)"
  by (auto simp: guarded_normalize_value_def Let_def strip_leading_not_space strip_trailing_keeps_start)

lemma guarded_not_ends: "\<not> endsWith_space (guarded_normalize_value v)"
  by (auto simp: guarded_normalize_value_def Let_def strip_trailing_not_space)

lemma guarded_fixpoint:
  "TAB \<notin> set v \<Longrightarrow> \<not> startsWith_space v \<Longrightarrow> \<not> endsWith_space v \<Longrightarrow> guarded_normalize_value v = v"
  by (simp add: guarded_normalize_value_def Let_def spec_collapse_tabs_no_tab)

lemma cleanupValue_idem: "cleanupValue (cleanupValue v) = cleanupValue v"
  by (simp add: cleanupValue_guarded guarded_fixpoint guarded_no_tab guarded_not_starts guarded_not_ends)

lemma keys_insert_index: "fst ` set (insert_index k v ps) = insert k (fst ` set ps)"
  by (induction k v ps rule: insert_index.induct) auto

lemma distinct_insert_index:
  "k \<notin> fst ` set ps \<Longrightarrow> distinct (map fst ps) \<Longrightarrow> distinct (map fst (insert_index k v ps))"
  by (induction k v ps rule: insert_index.induct) (auto simp: keys_insert_index)

lemma map_of_insert_index:
  "k \<notin> fst ` set ps \<Longrightarrow> map_of (insert_index k v ps) k' = (if k' = k then Some v else map_of ps k')"
  by (induction k v ps rule: insert_index.induct) auto

lemma map_of_replace:
  "map_of (replace_own k v ps) k'' =
     (if k'' = k \<and> k \<in> fst ` set ps then Some v else map_of ps k'')"
  by (induction k v ps rule: replace_own.induct) force+

lemma keys_replace: "map fst (replace_own k v ps) = map fst ps"
  by (induction k v ps rule: replace_own.induct) auto

lemma map_of_snoc:
  "k \<notin> fst ` set ps \<Longrightarrow> map_of (ps @ [(k, v)]) k' = (if k' = k then Some v else map_of ps k')"
  by (induction ps) auto

lemma obj_get_define:
  "obj_get (obj_define obj k v) k' = (if k' = k then Some v else obj_get obj k')"
  by (simp add: obj_get_def obj_define_def has_own_def Object_keys_def map_of_replace
      map_of_insert_index map_of_snoc del: map_of_append)

lemma keys_define:
  "set (Object_keys (obj_define obj k v)) = insert k (set (Object_keys obj))"
proof -
  have "fst ` set (obj_define obj k v) = insert k (fst ` set obj)"
    unfolding obj_define_def has_own_def Object_keys_def
    using keys_replace [of k v obj, THEN arg_cong, of set]
    by (auto simp: keys_insert_index simp del: map_map)
  then show ?thesis by (simp add: Object_keys_def)
qed

lemma distinct_define:
  "distinct (Object_keys obj) \<Longrightarrow> distinct (Object_keys (obj_define obj k v))"
  by (simp add: obj_define_def has_own_def Object_keys_def keys_replace distinct_insert_index
      del: map_map)

lemma has_own_get: "has_own obj k \<longleftrightarrow> obj_get obj k \<noteq> None"
  by (simp add: has_own_def obj_get_def Object_keys_def map_of_eq_None_iff)

lemma replace_own_same: "map_of ps k = Some v \<Longrightarrow> replace_own k v ps = ps"
  by (induction k v ps rule: replace_own.induct) (auto split: if_splits)

lemma insert_index_entries: "set (insert_index k v ps) = insert (k, v) (set ps)"
  by (induction k v ps rule: insert_index.induct) auto

lemma define_twice: "obj_define (obj_define obj k v) k v = obj_define obj k v"
proof -
  have own: "has_own (obj_define obj k v) k"
    by (simp add: has_own_def keys_define)
  have "map_of (obj_define obj k v) k = Some v"
    using obj_get_define [of obj k v k] by (simp add: obj_get_def)
  then show ?thesis
    using own by (subst obj_define_def) (simp add: replace_own_same)
qed

lemma step_twice:
  "cleanupJson_step json K (cleanupJson_step json K acc k) k = cleanupJson_step json K acc k"
  by (auto simp: cleanupJson_step_def define_twice split: option.splits)

lemma foldl_step_remdups_adj:
  "foldl (cleanupJson_step json K) acc (remdups_adj ks) = foldl (cleanupJson_step json K) acc ks"
  by (induction ks arbitrary: acc rule: remdups_adj.induct) (auto simp: step_twice)

lemma foldl_step_filter:
  "foldl (cleanupJson_step json K) acc (filter (\<lambda>k. k \<in> K) ks) = foldl (cleanupJson_step json K) acc ks"
  by (induction ks arbitrary: acc) (auto simp: cleanupJson_step_def)

lemma obj_get_foldl_step:
  "obj_get (foldl (cleanupJson_step json K) acc ks) k =
     (if k \<in> set ks \<and> k \<in> K \<and> obj_get json k \<noteq> None
      then map_option cleanupValue (obj_get json k) else obj_get acc k)"
  by (induction ks arbitrary: acc)
     (auto simp: cleanupJson_step_def obj_get_define split: option.splits)

lemma keys_foldl_step:
  "set (Object_keys (foldl (cleanupJson_step json K) acc ks)) =
     set (Object_keys acc) \<union> {k \<in> set ks. k \<in> K \<and> obj_get json k \<noteq> None}"
  by (induction ks arbitrary: acc)
     (auto simp: cleanupJson_step_def keys_define split: option.splits)

lemma distinct_foldl_step:
  "distinct (Object_keys acc) \<Longrightarrow> distinct (Object_keys (foldl (cleanupJson_step json K) acc ks))"
  by (induction ks arbitrary: acc)
     (auto simp: cleanupJson_step_def distinct_define split: option.splits)

lemma obj_get_None_iff: "obj_get obj k = None \<longleftrightarrow> k \<notin> set (Object_keys obj)"
  by (simp add: obj_get_def Object_keys_def map_of_eq_None_iff)

lemma obj_get_Nil: "obj_get [] k = None"
  by (simp add: obj_get_def)

lemma obj_get_cleanupJson:
  "obj_get (cleanupJson json K) k = (if k \<in> K then map_option cleanupValue (obj_get json k) else None)"
proof (cases "obj_get json k")
  case None
  then show ?thesis by (simp add: cleanupJson_def obj_get_foldl_step obj_get_Nil)
next
  case (Some v)
  then have "k \<in> set (Object_keys json)" using obj_get_None_iff [of json k] by simp
  with Some show ?thesis by (simp add: cleanupJson_def obj_get_foldl_step obj_get_Nil)
qed

lemma keys_cleanupJson:
  "set (Object_keys (cleanupJson json K)) = set (Object_keys json) \<inter> K"
proof -
  have "Object_keys ([] :: jsstring jsobject) = []" by (simp add: Object_keys_def)
  then show ?thesis by (auto simp: cleanupJson_def keys_foldl_step obj_get_None_iff)
qed

lemma distinct_cleanupJson: "distinct (Object_keys (cleanupJson json K))"
  unfolding cleanupJson_def by (rule distinct_foldl_step) (simp add: Object_keys_def)

lemma distinct_remdups_adj_sorted: "sorted xs \<Longrightarrow> distinct (remdups_adj xs)"
  by (induction xs rule: remdups_adj.induct) (auto simp: less_le)

lemma sorted_keys_cleanupJson:
  "sort (Object_keys (cleanupJson json K)) = remdups_adj (filter (\<lambda>k. k \<in> K) (sort (Object_keys json)))"
proof (rule sorted_distinct_set_unique)
  show "sorted (sort (Object_keys (cleanupJson json K)))" by simp
  show "distinct (sort (Object_keys (cleanupJson json K)))"
    by (simp add: distinct_cleanupJson)
  show "sorted (remdups_adj (filter (\<lambda>k. k \<in> K) (sort (Object_keys json))))"
    by (simp add: sorted_remdups_adj sorted_wrt_filter)
  show "distinct (remdups_adj (filter (\<lambda>k. k \<in> K) (sort (Object_keys json))))"
    by (simp add: distinct_remdups_adj_sorted sorted_wrt_filter)
  show "set (sort (Object_keys (cleanupJson json K))) =
        set (remdups_adj (filter (\<lambda>k. k \<in> K) (sort (Object_keys json))))"
    by (auto simp: keys_cleanupJson)
qed

lemma step_cleaned:
  assumes "k \<in> set (Object_keys (cleanupJson json K))"
  shows "cleanupJson_step (cleanupJson json K) K acc k = cleanupJson_step json K acc k"
proof -
  from assms have kK: "k \<in> K" and "k \<in> set (Object_keys json)"
    by (auto simp: keys_cleanupJson)
  then obtain v where v: "obj_get json k = Some v"
    using obj_get_None_iff [of json k] by auto
  then have "obj_get (cleanupJson json K) k = Some (cleanupValue v)"
    using kK by (simp add: obj_get_cleanupJson)
  with v kK show ?thesis
    by (simp add: cleanupJson_step_def cleanupValue_idem)
qed

lemma foldl_step_cleaned:
  "set ks \<subseteq> set (Object_keys (cleanupJson json K)) \<Longrightarrow>
     foldl (cleanupJson_step (cleanupJson json K) K) acc ks = foldl (cleanupJson_step json K) acc ks"
  by (induction ks arbitrary: acc) (auto simp: step_cleaned)

lemma obj_get_delete: "obj_get (obj_delete obj k) k' = (if k' = k then None else obj_get obj k')"
  by (induction obj) (auto simp: obj_get_def obj_delete_def)

lemma keys_delete: "set (Object_keys (obj_delete obj k)) = set (Object_keys obj) - {k}"
  by (auto simp: Object_keys_def obj_delete_def)

lemma has_own_define: "has_own (obj_define obj k v) k' \<longleftrightarrow> k' = k \<or> has_own obj k'"
  by (auto simp: has_own_def keys_define)

lemma obj_get_assign:
  "obj_get (obj_assign obj k v) k' =
     (if k' = k \<and> (k \<noteq> js ''__proto__'' \<or> has_own obj k) then Some v else obj_get obj k')"
  by (auto simp: obj_assign_def obj_get_define)

lemma has_own_assign:
  "has_own (obj_assign obj k v) k' \<longleftrightarrow>
     (k' = k \<and> (k \<noteq> js ''__proto__'' \<or> has_own obj k)) \<or> has_own obj k'"
  by (auto simp: obj_assign_def has_own_define)

lemma has_own_addKey_proto:
  "has_own (addKey L acc x) (js ''__proto__'') \<longleftrightarrow> has_own acc (js ''__proto__'')"
  by (auto simp: addKey_def has_own_assign split: option.splits)

lemma obj_get_foldl_addKey:
  "obj_get (foldl (addKey L) acc ks) k =
     (if k \<in> set ks \<and> obj_get L k \<noteq> None \<and> (k \<noteq> js ''__proto__'' \<or> has_own acc k)
      then obj_get L k else obj_get acc k)"
proof (induction ks arbitrary: acc)
  case Nil
  then show ?case by simp
next
  case (Cons x ks)
  show ?case
  proof (cases "k = js ''__proto__''")
    case True
    then show ?thesis
      using Cons.IH [of "addKey L acc x"]
      by (auto simp: has_own_addKey_proto) (auto simp: addKey_def obj_get_assign split: option.splits)
  next
    case False
    then show ?thesis
      using Cons.IH [of "addKey L acc x"]
      by (auto simp: addKey_def obj_get_assign split: option.splits)
  qed
qed

lemma foldl_removeKey:
  "foldl removeKey B ks = map (\<lambda>(localeName, json). (localeName, foldl obj_delete json ks)) B"
proof (induction ks arbitrary: B)
  case Nil
  then show ?case by (simp add: split_beta)
next
  case (Cons k ks)
  have "foldl removeKey B (k # ks) = foldl removeKey (removeKey B k) ks" by simp
  also have "\<dots> = map (\<lambda>(localeName, json). (localeName, foldl obj_delete json ks)) (removeKey B k)"
    by (rule Cons.IH)
  also have "\<dots> = map (\<lambda>(localeName, json). (localeName, foldl obj_delete json (k # ks))) B"
    by (simp add: removeKey_def split_beta)
  finally show ?case .
qed

lemma obj_get_foldl_delete:
  "obj_get (foldl obj_delete obj ks) k = (if k \<in> set ks then None else obj_get obj k)"
  by (induction ks arbitrary: obj) (auto simp: obj_get_delete)

lemma obj_get_map_values:
  "obj_get (map (\<lambda>(l, json). (l, f json)) B) l = map_option f (obj_get B l)"
  by (induction B) (auto simp: obj_get_def)

lemma obj_member_Own: "obj_get B d = Some D \<Longrightarrow> obj_member B d = Own D"
  by (simp add: obj_member_def)

lemma obj_member_cases:
  "(\<exists>D. obj_get B d = Some D \<and> obj_member B d = Own D) \<or>
   (obj_get B d = None \<and> (obj_member B d = Inherited \<or> obj_member B d = Undefined))"
  by (cases "obj_get B d") (auto simp: obj_member_def)

lemma reconcile_Some:
  assumes "reconcile d L B = Some B'" and "obj_get B d = Some D"
  shows "B' = map (\<lambda>(l, json). (l, foldl obj_delete json (filter (\<lambda>key. key \<notin> set (Object_keys L)) (Object_keys D))))
                (obj_define B d (foldl (addKey L) D (filter (\<lambda>key. key \<notin> set (Object_keys D)) (Object_keys L))))"
  using assms by (auto simp: reconcile_def obj_member_Own Let_def foldl_removeKey)

lemma reconcile_Inherited:
  "obj_member B d = Inherited \<Longrightarrow> reconcile d L B = Some B"
  by (simp add: reconcile_def)

lemma reconcile_Undefined:
  "obj_member B d = Undefined \<Longrightarrow> reconcile d L B = None"
  by (simp add: reconcile_def)

lemma obj_get_define_other: "obj_get (obj_define B d X) l = (if l = d then Some X else obj_get B l)"
  by (rule obj_get_define)

lemma entries_define_own:
  "has_own B d \<Longrightarrow> (l, json) \<in> set (obj_define B d X) \<Longrightarrow> (l, json) \<in> set B \<or> (l, json) = (d, X)"
proof -
  have "(l, json) \<in> set (replace_own d X B) \<Longrightarrow> (l, json) \<in> set B \<or> (l, json) = (d, X)"
    by (induction d X B rule: replace_own.induct) (auto split: if_splits)
  then show "has_own B d \<Longrightarrow> (l, json) \<in> set (obj_define B d X) \<Longrightarrow> (l, json) \<in> set B \<or> (l, json) = (d, X)"
    by (simp add: obj_define_def)
qed

lemma reconcile_removed:
  assumes "reconcile d L B = Some B'" and "obj_get B d = Some D"
    and "(l, json') \<in> set B'" and "k \<in> set (Object_keys D)" and "k \<notin> set (Object_keys L)"
  shows "\<not> has_own json' k"
proof -
  from reconcile_Some [OF assms(1,2)] obtain B1 where
    B': "B' = map (\<lambda>(l, json). (l, foldl obj_delete json (filter (\<lambda>key. key \<notin> set (Object_keys L)) (Object_keys D)))) B1"
    by blast
  with assms(3) obtain json1 where
    "json' = foldl obj_delete json1 (filter (\<lambda>key. key \<notin> set (Object_keys L)) (Object_keys D))"
    by auto
  with assms(4,5) have "obj_get json' k = None" by (simp add: obj_get_foldl_delete)
  then show ?thesis by (simp add: has_own_get)
qed

lemma reconcile_added:
  assumes "reconcile d L B = Some B'" and "obj_get B d = Some D"
    and "k \<in> set (Object_keys L)" and "k \<notin> set (Object_keys D)" and "k \<noteq> js ''__proto__''"
  shows "pulled_value B' d k = obj_get L k"
proof -
  from assms(3) have "obj_get L k \<noteq> None" by (simp add: obj_get_None_iff)
  with assms reconcile_Some [OF assms(1,2)] show ?thesis
    by (auto simp: pulled_value_def obj_get_map_values obj_get_define obj_get_foldl_delete
        obj_get_foldl_addKey)
qed

lemma reconcile_kept:
  assumes "reconcile d L B = Some B'" and "obj_get B d = Some D"
    and "k \<notin> set (Object_keys D) \<or> k \<in> set (Object_keys L)"
    and "l \<noteq> d \<or> k \<in> set (Object_keys D) \<or> k \<notin> set (Object_keys L)"
  shows "pulled_value B' l k = pulled_value B l k"
proof (cases "l = d")
  case True
  with assms reconcile_Some [OF assms(1,2)] show ?thesis
    by (auto simp: pulled_value_def obj_get_map_values obj_get_define obj_get_foldl_delete
        obj_get_foldl_addKey obj_get_None_iff)
next
  case False
  with assms reconcile_Some [OF assms(1,2)] show ?thesis
    by (auto simp: pulled_value_def obj_get_map_values obj_get_define obj_get_foldl_delete
        split: option.splits)
qed

lemma keys_map_values: "Object_keys (map (\<lambda>(l, json). (l, f json)) B) = Object_keys B"
  by (induction B) (auto simp: Object_keys_def)

lemma keys_define_own: "has_own B d \<Longrightarrow> Object_keys (obj_define B d X) = Object_keys B"
  by (simp add: obj_define_def keys_replace Object_keys_def)

lemma reconcile_locales:
  assumes "reconcile d L B = Some B'"
  shows "Object_keys B' = Object_keys B"
proof (cases "obj_get B d")
  case None
  with assms show ?thesis
    using obj_member_cases [of B d] by (auto simp: reconcile_def)
next
  case (Some D)
  from reconcile_Some [OF assms Some] obtain X ks where
    B': "B' = map (\<lambda>(l, json). (l, foldl obj_delete json ks)) (obj_define B d X)"
    by blast
  from Some have "has_own B d" by (simp add: has_own_get)
  with B' show ?thesis by (simp add: keys_map_values keys_define_own)
qed

lemma keys_foldl_step_fresh:
  assumes "distinct ks" and "set ks \<inter> set (Object_keys acc) = {}"
    and "\<forall>k \<in> set ks. k \<in> K \<and> obj_get json k \<noteq> None \<and> \<not> is_array_index k"
  shows "Object_keys (foldl (cleanupJson_step json K) acc ks) = Object_keys acc @ ks"
  using assms
proof (induction ks arbitrary: acc)
  case Nil
  then show ?case by simp
next
  case (Cons x ks)
  from Cons.prems obtain v where v: "obj_get json x = Some v" and xK: "x \<in> K"
    and nidx: "\<not> is_array_index x" and fresh: "\<not> has_own acc x"
    by (auto simp: has_own_def)
  then have step: "cleanupJson_step json K acc x = acc @ [(x, cleanupValue v)]"
    by (simp add: cleanupJson_step_def obj_define_def)
  have "Object_keys (foldl (cleanupJson_step json K) (acc @ [(x, cleanupValue v)]) ks) =
        Object_keys (acc @ [(x, cleanupValue v)]) @ ks"
    using Cons.prems by (intro Cons.IH) (auto simp: Object_keys_def)
  then show ?case by (simp add: step Object_keys_def)
qed

lemma cleanupJson_keys_sorted:
  assumes "\<forall>k \<in> set (Object_keys m). k \<in> K \<longrightarrow> \<not> is_array_index k"
  shows "Object_keys (cleanupJson m K) = remdups_adj (filter (\<lambda>k. k \<in> K) (sort (Object_keys m)))"
proof -
  let ?ks = "remdups_adj (filter (\<lambda>k. k \<in> K) (sort (Object_keys m)))"
  have "cleanupJson m K = foldl (cleanupJson_step m K) [] ?ks"
    by (simp only: cleanupJson_def foldl_step_remdups_adj foldl_step_filter)
  moreover have "Object_keys (foldl (cleanupJson_step m K) [] ?ks) = Object_keys ([] :: jsstring jsobject) @ ?ks"
  proof (rule keys_foldl_step_fresh)
    show "distinct ?ks" by (simp add: distinct_remdups_adj_sorted sorted_wrt_filter)
    show "set ?ks \<inter> set (Object_keys ([] :: jsstring jsobject)) = {}" by (simp add: Object_keys_def)
    show "\<forall>k \<in> set ?ks. k \<in> K \<and> obj_get m k \<noteq> None \<and> \<not> is_array_index k"
      using assms by (auto simp: obj_get_None_iff)
  qed
  ultimately show ?thesis by (simp add: Object_keys_def)
qed

section \<open>Lemmas on the process\<close>

lemma ordinary_seq:
  assumes "ordinary m" and "\<And>x. ordinary (f x)"
  shows "ordinary (seq m f)"
  unfolding ordinary_def
proof (intro allI)
  fix w
  obtain r w' where mw: "m w = (r, w')" by (cases "m w")
  with assms(1) have "r \<noteq> Builtin_changed" and "r \<noteq> Exit n" for n
    unfolding ordinary_def by (metis fst_conv)+
  with mw assms(2) show "fst (seq m f w) \<noteq> Builtin_changed \<and> (\<forall>n. fst (seq m f w) \<noteq> Exit n)"
    unfolding ordinary_def seq_def by (cases r) auto
qed

lemma ordinary_ret: "ordinary (ret x)"
  by (simp add: ordinary_def ret_def)

lemma ordinary_throw: "ordinary throw"
  by (simp add: ordinary_def throw_def)

lemma ordinary_forEach: "(\<And>x. ordinary (f x)) \<Longrightarrow> ordinary (forEach xs f)"
  by (induction xs) (auto intro: ordinary_seq ordinary_ret)

lemma ordinary_console_log: "ordinary (console_log l)"
  by (simp add: ordinary_def console_log_def)

lemma ordinary_readFileSync: "ordinary (readFileSync n f)"
  by (simp add: ordinary_def readFileSync_def split: option.splits)

lemma ordinary_readdirSync: "ordinary (readdirSync n)"
  by (simp add: ordinary_def readdirSync_def split: option.splits)

lemma ordinary_writeFileSync: "ordinary (writeFileSync n f d)"
  by (simp add: ordinary_def writeFileSync_def split: option.splits)

lemma ordinary_JSON_parse_file: "ordinary (JSON_parse_file e c)"
  by (simp add: JSON_parse_file_def ordinary_ret ordinary_throw split: option.splits)

lemma ordinary_download_bundle: "ordinary (download_bundle e p)"
  by (simp add: download_bundle_def ordinary_ret ordinary_throw split: option.splits)

lemmas ordinary_intros = ordinary_seq ordinary_ret ordinary_throw ordinary_forEach ordinary_console_log
  ordinary_readFileSync ordinary_readdirSync ordinary_writeFileSync ordinary_JSON_parse_file
  ordinary_download_bundle

lemma ordinary_lintFiles: "ordinary (lintFiles e p files isOk)"
proof (induction files arbitrary: isOk)
  case Nil
  then show ?case by (simp add: ordinary_ret)
next
  case (Cons f files)
  show ?case
    by (auto simp: split_beta intro!: ordinary_intros Cons.IH split: option.splits)
qed

lemma ordinary_lintProject: "ordinary (lintProject e p)"
  by (auto simp: lintProject_def intro!: ordinary_intros ordinary_lintFiles)

lemma ordinary_cleanupFile: "ordinary (cleanupFile e p K f)"
  by (auto simp: cleanupFile_def intro!: ordinary_intros)

lemma ordinary_cleanupProject: "ordinary (cleanupProject e p)"
  by (auto simp: cleanupProject_def intro!: ordinary_intros ordinary_cleanupFile)

lemma ordinary_writePulled: "ordinary (writePulled e p x)"
  by (auto simp: writePulled_def split_beta intro!: ordinary_intros)

lemma seq_ExitE:
  assumes "seq m f w = (Exit n, w')" and "ordinary m"
  obtains x w1 where "m w = (Value x, w1)" and "f x w1 = (Exit n, w')"
proof -
  obtain r w1 where mw: "m w = (r, w1)" by (cases "m w")
  with assms(2) have ne: "r \<noteq> Exit k" for k
    unfolding ordinary_def by (metis fst_conv)
  show thesis
  proof (cases r)
    case (Value x)
    with mw assms(1) have "f x w1 = (Exit n, w')" by (simp add: seq_def)
    with mw Value show ?thesis by (auto intro: that)
  next
    case (Exit k)
    with ne [of k] show ?thesis by simp
  next
    case Throw
    with mw assms(1) show ?thesis by (simp add: seq_def)
  next
    case Builtin_changed
    with mw assms(1) show ?thesis by (simp add: seq_def)
  qed
qed

lemma ordinary_upload_file: "ordinary (upload_file e p f c)"
  by (simp add: ordinary_def upload_file_def)

lemma ordinary_pushFile: "ordinary (pushFile e p f)"
  by (auto simp: pushFile_def intro!: ordinary_intros ordinary_upload_file)

lemma pullProject_write_exit:
  "pullProject_write e p merged w = (Exit n, w') \<Longrightarrow>
     n = 1 \<and> (\<exists>w1. lintProject e p w1 = (Value False, w'))"
  unfolding pullProject_write_def
  apply (erule seq_ExitE, rule ordinary_forEach, rule ordinary_writePulled)
  apply (erule seq_ExitE, rule ordinary_console_log)
  apply (erule seq_ExitE, rule ordinary_cleanupProject)
  apply (erule seq_ExitE, rule ordinary_console_log)
  apply (erule seq_ExitE, rule ordinary_lintProject)
  apply (auto simp: process_exit_def ret_def split: if_splits)
  done

lemma pullProject_exit:
  "pullProject e p w = (Exit n, w') \<Longrightarrow>
     n = 1 \<and> (\<exists>w1. lintProject e p w1 = (Value False, w'))"
  unfolding pullProject_def
  apply (erule seq_ExitE, rule ordinary_readFileSync)
  apply (erule seq_ExitE, rule ordinary_JSON_parse_file)
  apply (erule seq_ExitE, rule ordinary_download_bundle)
  apply (auto simp: console_error_def builtin_changed_def split: option.splits if_splits
      dest: pullProject_write_exit)
  done

lemma ordinaryD: "ordinary m \<Longrightarrow> m w = (Exit n, w') \<Longrightarrow> False"
  by (metis ordinary_def fst_conv)

lemma ordinary_builtinD: "ordinary m \<Longrightarrow> m w = (Builtin_changed, w') \<Longrightarrow> False"
  by (metis ordinary_def fst_conv)

lemma pushProject_exit:
  "pushProject e p w = (Exit n, w') \<Longrightarrow>
     n = 1 \<and> (\<exists>w1. lintProject e p w1 = (Value False, w'))"
  unfolding pushProject_def
  apply (erule seq_ExitE, rule ordinary_cleanupProject)
  apply (erule seq_ExitE, rule ordinary_console_log)
  apply (erule seq_ExitE, rule ordinary_lintProject)
  apply (simp split: if_splits)
   apply (auto simp: process_exit_def)[1]
  apply (erule seq_ExitE, rule ordinary_console_log)
  apply (erule seq_ExitE, rule ordinary_readdirSync)
  apply (auto dest!: ordinaryD [OF ordinary_forEach, OF ordinary_pushFile])
  done

lemma pull_project_run_exit:
  "pull_project_run e p w = (Exit n, w') \<Longrightarrow>
     n = 1 \<and> (\<exists>w1. lintProject e p w1 = (Value False, w'))"
  unfolding pull_project_run_def
  apply (erule seq_ExitE, rule ordinary_console_log)
  apply (erule seq_ExitE, rule ordinary_console_log)
  apply (auto simp: seq_def console_log_def split: prod.splits outcome.splits dest: pullProject_exit)
  done

lemma push_project_run_exit:
  "push_project_run e p w = (Exit n, w') \<Longrightarrow>
     n = 1 \<and> (\<exists>w1. lintProject e p w1 = (Value False, w'))"
  unfolding push_project_run_def
  apply (erule seq_ExitE, rule ordinary_console_log)
  apply (erule seq_ExitE, rule ordinary_console_log)
  apply (auto simp: seq_def console_log_def split: prod.splits outcome.splits dest: pushProject_exit)
  done

lemma forEach_stops:
  "forEach xs f w0 = (Value (), w) \<Longrightarrow> f y w = (r, w') \<Longrightarrow> r \<noteq> Value () \<Longrightarrow>
     forEach (xs @ y # zs) f w0 = (r, w')"
proof (induction xs arbitrary: w0)
  case Nil
  then show ?case by (cases r) (auto simp: ret_def seq_def)
next
  case (Cons x xs)
  from Cons.prems(1) obtain w1 where "f x w0 = (Value (), w1)" and "forEach xs f w1 = (Value (), w)"
    by (auto simp: seq_def split: prod.splits outcome.splits)
  with Cons.IH [OF _ Cons.prems(2,3)] show ?case by (simp add: seq_def)
qed

lemma reads_onlyI:
  "(\<And>w :: world. \<exists>r ls. \<forall>w'. fs w' = fs w \<longrightarrow> m w' = (r, w'\<lparr>console := console w' @ ls\<rparr>)) \<Longrightarrow> reads_only m"
  by (simp add: reads_only_def)

lemma reads_only_pure:
  assumes "\<And>w :: world. m w = (g (fs w), w)"
  shows "reads_only m"
proof (rule reads_onlyI)
  fix w :: world
  have "m w' = (g (fs w), w'\<lparr>console := console w' @ []\<rparr>)" if "fs w' = fs w" for w'
    using that assms [of w'] by simp
  then show "\<exists>r ls. \<forall>w'. fs w' = fs w \<longrightarrow> m w' = (r, w'\<lparr>console := console w' @ ls\<rparr>)"
    by blast
qed

lemma reads_only_ret: "reads_only (ret x)"
  by (rule reads_only_pure [where g = "\<lambda>_. Value x"]) (simp add: ret_def)

lemma reads_only_throw: "reads_only throw"
  by (rule reads_only_pure [where g = "\<lambda>_. Throw"]) (simp add: throw_def)

lemma reads_only_console_log: "reads_only (console_log l)"
  by (rule reads_onlyI) (auto simp: console_log_def)

lemma reads_only_readFileSync: "reads_only (readFileSync n f)"
  by (rule reads_only_pure [where g = "\<lambda>files. case map_of files n of
          None \<Rightarrow> Throw
        | Some dir \<Rightarrow> (case map_of dir f of None \<Rightarrow> Throw | Some content \<Rightarrow> Value content)"])
     (simp add: readFileSync_def split: option.splits)

lemma reads_only_readdirSync: "reads_only (readdirSync n)"
  by (rule reads_only_pure [where g = "\<lambda>files. case map_of files n of
          None \<Rightarrow> Throw
        | Some dir \<Rightarrow> Value (sort_key code_points (map fst dir))"])
     (simp add: readdirSync_def split: option.splits)

lemma reads_only_JSON_parse_file: "reads_only (JSON_parse_file e c)"
  by (simp add: JSON_parse_file_def reads_only_ret reads_only_throw split: option.splits)

lemma reads_only_seq:
  assumes "reads_only m" and "\<And>x. reads_only (f x)"
  shows "reads_only (seq m f)"
proof (rule reads_onlyI)
  fix w :: world
  from assms(1) obtain r ls where
    m: "\<And>w'. fs w' = fs w \<Longrightarrow> m w' = (r, w'\<lparr>console := console w' @ ls\<rparr>)"
    unfolding reads_only_def by blast
  show "\<exists>r ls. \<forall>w'. fs w' = fs w \<longrightarrow> seq m f w' = (r, w'\<lparr>console := console w' @ ls\<rparr>)"
  proof (cases r)
    case (Value x)
    from assms(2) [of x] obtain r2 ls2 where
      f: "\<And>w'. fs w' = fs w \<Longrightarrow> f x w' = (r2, w'\<lparr>console := console w' @ ls2\<rparr>)"
      unfolding reads_only_def by blast
    have "seq m f w' = (r2, w'\<lparr>console := console w' @ (ls @ ls2)\<rparr>)" if "fs w' = fs w" for w'
      using that m [of w'] f [of "w'\<lparr>console := console w' @ ls\<rparr>"] Value
      by (simp add: seq_def)
    then show ?thesis by blast
  next
    case (Exit n)
    have "seq m f w' = (Exit n, w'\<lparr>console := console w' @ ls\<rparr>)" if "fs w' = fs w" for w'
      using that m [of w'] Exit by (simp add: seq_def)
    then show ?thesis by blast
  next
    case Throw
    have "seq m f w' = (Throw, w'\<lparr>console := console w' @ ls\<rparr>)" if "fs w' = fs w" for w'
      using that m [of w'] Throw by (simp add: seq_def)
    then show ?thesis by blast
  next
    case Builtin_changed
    have "seq m f w' = (Builtin_changed, w'\<lparr>console := console w' @ ls\<rparr>)" if "fs w' = fs w" for w'
      using that m [of w'] Builtin_changed by (simp add: seq_def)
    then show ?thesis by blast
  qed
qed

lemma reads_only_forEach: "(\<And>x. reads_only (f x)) \<Longrightarrow> reads_only (forEach xs f)"
  by (induction xs) (auto intro: reads_only_seq reads_only_ret)

lemmas reads_only_intros = reads_only_seq reads_only_ret reads_only_throw reads_only_forEach
  reads_only_console_log reads_only_readFileSync reads_only_readdirSync reads_only_JSON_parse_file

lemma reads_only_lintFiles: "reads_only (lintFiles e p files isOk)"
proof (induction files arbitrary: isOk)
  case Nil
  then show ?case by (simp add: reads_only_ret)
next
  case (Cons f files)
  show ?case
    by (auto simp: split_beta intro!: reads_only_intros Cons.IH split: option.splits)
qed

lemma reads_only_lintProject: "reads_only (lintProject e p)"
  by (auto simp: lintProject_def intro!: reads_only_intros reads_only_lintFiles)

lemma lintProject_report:
  "lintProject e p w = (lint_result e p (fs w), w\<lparr>console := console w @ lint_report e p (fs w)\<rparr>)"
proof -
  from reads_only_lintProject [of e p] obtain r ls where
    m: "\<And>w'. fs w' = fs w \<Longrightarrow> lintProject e p w' = (r, w'\<lparr>console := console w' @ ls\<rparr>)"
    unfolding reads_only_def by blast
  have "lintProject e p (blank_world (fs w)) = (r, (blank_world (fs w))\<lparr>console := console (blank_world (fs w)) @ ls\<rparr>)"
    by (rule m) (simp add: blank_world_def)
  then have "lint_result e p (fs w) = r" and "lint_report e p (fs w) = ls"
    by (simp_all add: lint_result_def lint_report_def blank_world_def)
  with m [of w] show ?thesis by simp
qed

lemma lint_result_not_Exit: "lint_result e p files \<noteq> Exit n"
  using ordinary_lintProject [of e p] by (simp add: ordinary_def lint_result_def)

lemma lint_result_not_Builtin_changed: "lint_result e p files \<noteq> Builtin_changed"
  using ordinary_lintProject [of e p] by (simp add: ordinary_def lint_result_def)

lemma lint_projects_closed:
  assumes "\<forall>p \<in> set projects. lint_result e p (fs w) \<noteq> Throw"
  shows "lint_projects e projects hasError w =
           (Value (hasError \<or> (\<exists>p \<in> set projects. lint_result e p (fs w) = Value False)),
            w\<lparr>console := console w @
                 concat (map (\<lambda>p. lint_report e p (fs w) @
                                   (if lint_result e p (fs w) = Value False
                                    then [Stdout [], Stdout []] else [])) projects)\<rparr>)"
  using assms
proof (induction projects arbitrary: hasError w)
  case Nil
  then show ?case by (simp add: ret_def)
next
  case (Cons p projects)
  from Cons.prems obtain b where b: "lint_result e p (fs w) = Value b"
    using lint_result_not_Exit [of e p "fs w"] lint_result_not_Builtin_changed [of e p "fs w"]
    by (cases "lint_result e p (fs w)") auto
  show ?case
  proof (cases b)
    case True
    let ?w1 = "w\<lparr>console := console w @ lint_report e p (fs w)\<rparr>"
    have "lint_projects e (p # projects) hasError w = lint_projects e projects hasError ?w1"
      using b True by (simp add: seq_def lintProject_report)
    also have "\<dots> = (Value (hasError \<or> (\<exists>q \<in> set projects. lint_result e q (fs ?w1) = Value False)),
            ?w1\<lparr>console := console ?w1 @
                 concat (map (\<lambda>q. lint_report e q (fs ?w1) @
                                   (if lint_result e q (fs ?w1) = Value False
                                    then [Stdout [], Stdout []] else [])) projects)\<rparr>)"
      using Cons.prems by (intro Cons.IH) simp
    finally show ?thesis using b True by simp
  next
    case False
    let ?w1 = "w\<lparr>console := console w @ lint_report e p (fs w) @ [Stdout [], Stdout []]\<rparr>"
    have "lint_projects e (p # projects) hasError w = lint_projects e projects True ?w1"
      using b False by (simp add: seq_def lintProject_report console_log_def)
    also have "\<dots> = (Value (True \<or> (\<exists>q \<in> set projects. lint_result e q (fs ?w1) = Value False)),
            ?w1\<lparr>console := console ?w1 @
                 concat (map (\<lambda>q. lint_report e q (fs ?w1) @
                                   (if lint_result e q (fs ?w1) = Value False
                                    then [Stdout [], Stdout []] else [])) projects)\<rparr>)"
      using Cons.prems by (intro Cons.IH) simp
    finally show ?thesis using b False by simp
  qed
qed

lemma lint_command_closed:
  assumes "\<forall>p \<in> set projects. lint_result e p (fs w) \<noteq> Throw"
  shows "lint_command e projects w =
           ((if \<exists>p \<in> set projects. lint_result e p (fs w) = Value False then Exit 1 else Value ()),
            w\<lparr>console := console w @
                 concat (map (\<lambda>p. lint_report e p (fs w) @
                                   (if lint_result e p (fs w) = Value False
                                    then [Stdout [], Stdout []] else [])) projects)\<rparr>)"
  by (simp add: lint_command_def seq_def lint_projects_closed [OF assms] process_exit_def ret_def)

lemma hex_digit_not_LF:
  assumes "n < 16"
  shows "hex_digit n \<noteq> LF"
proof
  assume "hex_digit n = LF"
  then have "unat (hex_digit n) = unat LF" by simp
  with assms show False
    by (simp add: hex_digit_def LF_def unat_of_nat del: of_nat_add split: if_splits)
qed

lemma UnicodeEscape_no_LF: "LF \<notin> set (UnicodeEscape c)"
proof -
  have "unat c < 2 ^ 16" using unsigned_less [of c, where ?'a = nat] by simp
  then have "unat c div 4096 < 16" by simp
  then show ?thesis
    using hex_digit_not_LF [of "unat c div 4096"] hex_digit_not_LF [of "unat c div 256 mod 16"]
      hex_digit_not_LF [of "unat c div 16 mod 16"] hex_digit_not_LF [of "unat c mod 16"]
    by (simp add: UnicodeEscape_def BACKSLASH_def LF_def)
qed

lemma quote_unit_no_LF: "LF \<notin> set (quote_unit c)"
  using UnicodeEscape_no_LF [of c]
  by (simp add: quote_unit_def BACKSLASH_def DQUOTE_def LF_def)

lemma quote_units_no_LF: "LF \<notin> set (quote_units s)"
proof (induction s rule: quote_units.induct)
  case 1
  then show ?case by simp
next
  case (2 c)
  then show ?case using UnicodeEscape_no_LF [of c] quote_unit_no_LF [of c] by simp
next
  case (3 c d cs)
  have "c \<noteq> LF" if "is_lead_surrogate c"
    using that by (auto simp: is_lead_surrogate_def LF_def)
  moreover have "d \<noteq> LF" if "is_trail_surrogate d"
    using that by (auto simp: is_trail_surrogate_def LF_def)
  ultimately show ?case
    using 3 UnicodeEscape_no_LF [of c] quote_unit_no_LF [of c] by auto
qed

lemma json_member_no_LF: "LF \<notin> set (json_member m)"
  using quote_units_no_LF
  by (cases m) (auto simp: json_member_def QuoteJSONString_def js_def LF_def DQUOTE_def)

lemma split_js_no_sep: "sep \<notin> set xs \<Longrightarrow> split_js xs sep = [xs]"
  by (induction xs) auto

lemma split_js_append: "sep \<notin> set xs \<Longrightarrow> split_js (xs @ sep # ys) sep = xs # split_js ys sep"
  by (induction xs) auto

lemma split_members:
  "json \<noteq> [] \<Longrightarrow>
     split_js (js ''  '' @ join (map json_member json) ([0x2C, LF] @ js ''  '') @ LF # js ''}'') LF
       = member_lines json @ [js ''}'']"
proof (induction json rule: member_lines.induct)
  case 1
  then show ?case by simp
next
  case (2 m)
  have nl: "LF \<notin> set (js ''  '' @ json_member m)"
    using json_member_no_LF [of m] by (auto simp: js_def LF_def)
  have br: "split_js (js ''}'') LF = [js ''}'']"
    by (simp add: js_def LF_def)
  have "split_js ((js ''  '' @ json_member m) @ LF # js ''}'') LF
               = (js ''  '' @ json_member m) # split_js (js ''}'') LF"
    using nl by (rule split_js_append)
  with br show ?case by simp
next
  case (3 m n ms)
  let ?rest = "js ''  '' @ join (map json_member (n # ms)) ([0x2C, LF] @ js ''  '') @ LF # js ''}''"
  have nl: "LF \<notin> set (js ''  '' @ json_member m @ js '','')"
    using json_member_no_LF [of m] by (auto simp: js_def LF_def)
  have eq: "js ''  '' @ join (map json_member (m # n # ms)) ([0x2C, LF] @ js ''  '') @ LF # js ''}''
        = (js ''  '' @ json_member m @ js '','') @ LF # ?rest"
    by (simp add: js_def)
  have "split_js ((js ''  '' @ json_member m @ js '','') @ LF # ?rest) LF
        = (js ''  '' @ json_member m @ js '','') # split_js ?rest LF"
    using nl by (rule split_js_append)
  also have "split_js ?rest LF = member_lines (n # ms) @ [js ''}'']"
    using 3 by simp
  finally have "split_js ((js ''  '' @ json_member m @ js '','') @ LF # ?rest) LF
        = member_lines (m # n # ms) @ [js ''}'']"
    by simp
  then show ?case by (simp only: eq)
qed

lemma JSON_stringify_lines:
  assumes "json \<noteq> []"
  shows "split_js (JSON_stringify json) LF = js ''{'' # member_lines json @ [js ''}'']"
proof -
  let ?rest = "js ''  '' @ join (map json_member json) ([0x2C, LF] @ js ''  '') @ LF # js ''}''"
  have eq: "JSON_stringify json = js ''{'' @ LF # ?rest"
    using assms by (simp add: JSON_stringify_def)
  have "LF \<notin> set (js ''{'')" by (simp add: js_def LF_def)
  then have "split_js (js ''{'' @ LF # ?rest) LF = js ''{'' # split_js ?rest LF"
    by (rule split_js_append)
  also have "split_js ?rest LF = member_lines json @ [js ''}'']"
    using assms by (rule split_members)
  finally show ?thesis by (simp only: eq)
qed

lemma cleanupFile_writes:
  assumes "map_of (fs w) (name p) = Some dir" and "map_of dir locale = Some rawFile"
    and "JSON_parse e rawFile = Some json"
  shows "writes (snd (cleanupFile e p K locale w)) =
           writes w @ (if rawFile = JSON_stringify (cleanupJson json K) @ EOL e then []
                       else [(name p, locale, JSON_stringify (cleanupJson json K) @ EOL e)])"
    and "rawFile = JSON_stringify (cleanupJson json K) @ EOL e \<Longrightarrow>
           fs (snd (cleanupFile e p K locale w)) = fs w"
  using assms
  by (simp_all add: cleanupFile_def seq_def readFileSync_def JSON_parse_file_def ret_def
      console_log_def writeFileSync_def)

lemma writePulled_writes:
  assumes "map_of (fs w) (name p) = Some dir"
  shows "writes (snd (writePulled e p (localeName, json) w)) =
           writes w @ [(name p, localeName @ js ''.json'', JSON_stringify json @ EOL e)]"
  using assms by (simp add: writePulled_def seq_def console_log_def writeFileSync_def)

lemma onlyKeepKeysInJson_writes:
  assumes "map_of (fs w) (name p) = Some dir" and "map_of dir file = Some content"
    and "JSON_parse e content = Some json"
  shows "writes (snd (onlyKeepKeysInJson e p file keysToKeep w)) =
           writes w @ [(name p, file, JSON_stringify (jsonWithoutKeys json keysToKeep) @ EOL e)]"
  using assms
  by (simp add: onlyKeepKeysInJson_def seq_def readFileSync_def JSON_parse_file_def ret_def
      console_log_def writeFileSync_def)

lemma pull_missing:
  assumes "map_of (fs w) (name p) = Some dir" and "map_of dir (js ''en.json'') = Some content"
    and "JSON_parse e content = Some localTranslations"
    and "download e p = Some pulledLocales"
    and "obj_member pulledLocales (defaultLocale p) = Undefined"
  shows "pullProject e p w =
           (Value (), w\<lparr>console := console w @
              [Stderr (name p @ js '' is missing translations for its default locale'')]\<rparr>)"
  using assms
  by (simp add: pullProject_def seq_def readFileSync_def JSON_parse_file_def ret_def
      download_bundle_def reconcile_def assigns_builtin_def console_error_def)

lemma pull_missing_ordinary_locale:
  assumes "map_of (fs w) (name p) = Some dir" and "map_of dir (js ''en.json'') = Some content"
    and "JSON_parse e content = Some localTranslations"
    and "download e p = Some pulledLocales"
    and "obj_get pulledLocales (defaultLocale p) = None"
    and "defaultLocale p \<notin> set Object_prototype_names"
  shows "pullProject e p w =
           (Value (), w\<lparr>console := console w @
              [Stderr (name p @ js '' is missing translations for its default locale'')]\<rparr>) \<and>
         pull_command e (p # projects) w =
           pull_command e projects
             (w\<lparr>console := console w @
                [Stdout (name p), Stdout (js ''---''),
                 Stderr (name p @ js '' is missing translations for its default locale''),
                 Stdout [], Stdout []]\<rparr>)"
proof -
  from assms(5,6) have u: "obj_member pulledLocales (defaultLocale p) = Undefined"
    by (simp add: obj_member_def)
  have one: "pullProject e p w' =
           (Value (), w'\<lparr>console := console w' @
              [Stderr (name p @ js '' is missing translations for its default locale'')]\<rparr>)"
    if "fs w' = fs w" for w'
    using that assms(1-4) u by (intro pull_missing) simp_all
  have "pull_project_run e p w =
          (Value (), w\<lparr>console := console w @
                [Stdout (name p), Stdout (js ''---''),
                 Stderr (name p @ js '' is missing translations for its default locale''),
                 Stdout [], Stdout []]\<rparr>)"
    by (simp add: pull_project_run_def seq_def console_log_def one)
  then show ?thesis
    using one [of w] by (simp add: pull_command_def seq_def)
qed

lemma seq_resultE:
  assumes "seq m f w = (r, w')" and "r \<noteq> Throw" and "ordinary m"
  obtains x w1 where "m w = (Value x, w1)" and "f x w1 = (r, w')"
proof -
  obtain r1 w1 where mw: "m w = (r1, w1)" by (cases "m w")
  show thesis
  proof (cases r1)
    case (Value x)
    with mw assms(1) have "f x w1 = (r, w')" by (simp add: seq_def)
    with mw Value show ?thesis by (auto intro: that)
  next
    case (Exit k)
    with mw assms(3) show ?thesis by (auto dest: ordinaryD)
  next
    case Throw
    with mw assms(1,2) show ?thesis by (simp add: seq_def)
  next
    case Builtin_changed
    with mw assms(3) show ?thesis by (auto dest: ordinary_builtinD)
  qed
qed

lemma keeps_fs_seq: "keeps_fs m \<Longrightarrow> (\<And>x. keeps_fs (f x)) \<Longrightarrow> keeps_fs (seq m f)"
  unfolding keeps_fs_def seq_def
  by (auto split: prod.splits outcome.splits) (metis snd_conv)+

lemma keeps_fs_ret: "keeps_fs (ret x)"
  by (simp add: keeps_fs_def ret_def)

lemma keeps_fs_forEach: "(\<And>x. keeps_fs (f x)) \<Longrightarrow> keeps_fs (forEach xs f)"
  by (induction xs) (auto intro: keeps_fs_seq keeps_fs_ret)

lemma keeps_fs_console_log: "keeps_fs (console_log l)"
  by (simp add: keeps_fs_def console_log_def)

lemma keeps_fs_readFileSync: "keeps_fs (readFileSync n f)"
  by (simp add: keeps_fs_def readFileSync_def split: option.splits)

lemma keeps_fs_readdirSync: "keeps_fs (readdirSync n)"
  by (simp add: keeps_fs_def readdirSync_def split: option.splits)

lemma keeps_fs_upload_file: "keeps_fs (upload_file e p f c)"
  by (simp add: keeps_fs_def upload_file_def)

lemma keeps_fs_pushFile: "keeps_fs (pushFile e p f)"
  by (auto simp: pushFile_def intro!: keeps_fs_seq keeps_fs_readFileSync keeps_fs_upload_file
      keeps_fs_console_log)

lemma keeps_fsD: "keeps_fs m \<Longrightarrow> m w = (r, w') \<Longrightarrow> fs w' = fs w"
  by (metis keeps_fs_def snd_conv)

lemma lint_then_exit:
  assumes "seq (lintProject e p) (\<lambda>isOk. if \<not> isOk then process_exit 1 else ret ()) w = (r, w')"
    and "r \<noteq> Throw"
  shows "(r = Exit 1 \<and> lint_result e p (fs w') = Value False) \<or>
         (r = Value () \<and> lint_result e p (fs w') = Value True)"
proof -
  from assms obtain isOk w1 where l: "lintProject e p w = (Value isOk, w1)"
    and x: "(if \<not> isOk then process_exit 1 else ret ()) w1 = (r, w')"
    by (rule seq_resultE) (rule ordinary_lintProject)
  from l have "lint_result e p (fs w) = Value isOk" and "fs w1 = fs w"
    by (auto simp: lintProject_report)
  moreover from x have "w' = w1" and "r = (if \<not> isOk then Exit 1 else Value ())"
    by (auto simp: process_exit_def ret_def split: if_splits)
  ultimately show ?thesis by auto
qed

lemma pullProject_write_result:
  "pullProject_write e p merged w = (r, w') \<Longrightarrow> r \<noteq> Throw \<Longrightarrow>
     (r = Exit 1 \<and> lint_result e p (fs w') = Value False) \<or>
     (r = Value () \<and> lint_result e p (fs w') = Value True)"
  unfolding pullProject_write_def
  apply (erule seq_resultE, assumption, rule ordinary_forEach, rule ordinary_writePulled)
  apply (erule seq_resultE, assumption, rule ordinary_console_log)
  apply (erule seq_resultE, assumption, rule ordinary_cleanupProject)
  apply (erule seq_resultE, assumption, rule ordinary_console_log)
  apply (erule lint_then_exit, assumption)
  done

lemma pushProject_result:
  assumes "pushProject e p w = (r, w')" and "r \<noteq> Throw"
  shows "(r = Exit 1 \<and> lint_result e p (fs w') = Value False) \<or>
         (r = Value () \<and> lint_result e p (fs w') = Value True)"
proof -
  from assms obtain u1 :: unit and w1 where
    a1: "seq (console_log []) (\<lambda>_.
         seq (lintProject e p) (\<lambda>isOk.
         if \<not> isOk then process_exit 1
         else
           seq (console_log []) (\<lambda>_.
           seq (readdirSync (name p)) (\<lambda>items.
           forEach (filter extname_is_json items) (pushFile e p))))) w1 = (r, w')"
    unfolding pushProject_def by (rule seq_resultE) (rule ordinary_cleanupProject)
  from a1 assms(2) obtain u2 :: unit and w2 where
    a2: "seq (lintProject e p) (\<lambda>isOk.
         if \<not> isOk then process_exit 1
         else
           seq (console_log []) (\<lambda>_.
           seq (readdirSync (name p)) (\<lambda>items.
           forEach (filter extname_is_json items) (pushFile e p)))) w2 = (r, w')"
    by (rule seq_resultE) (rule ordinary_console_log)
  from a2 assms(2) obtain isOk w3 where l: "lintProject e p w2 = (Value isOk, w3)"
    and x: "(if \<not> isOk then process_exit 1
         else
           seq (console_log []) (\<lambda>_.
           seq (readdirSync (name p)) (\<lambda>items.
           forEach (filter extname_is_json items) (pushFile e p)))) w3 = (r, w')"
    by (rule seq_resultE) (rule ordinary_lintProject)
  from l have lr: "lint_result e p (fs w2) = Value isOk" and f3: "fs w3 = fs w2"
    by (auto simp: lintProject_report)
  show ?thesis
  proof (cases isOk)
    case False
    with x have "r = Exit 1" and "w' = w3" by (simp_all add: process_exit_def)
    with lr f3 False show ?thesis by simp
  next
    case True
    have k: "keeps_fs (seq (console_log []) (\<lambda>_.
           seq (readdirSync (name p)) (\<lambda>items.
           forEach (filter extname_is_json items) (pushFile e p))))"
      by (intro keeps_fs_seq keeps_fs_console_log keeps_fs_readdirSync keeps_fs_forEach
          keeps_fs_pushFile)
    have n: "ordinary (seq (console_log []) (\<lambda>_.
           seq (readdirSync (name p)) (\<lambda>items.
           forEach (filter extname_is_json items) (pushFile e p))))"
      by (intro ordinary_seq ordinary_console_log ordinary_readdirSync ordinary_forEach
          ordinary_pushFile)
    from x True have run: "seq (console_log []) (\<lambda>_.
           seq (readdirSync (name p)) (\<lambda>items.
           forEach (filter extname_is_json items) (pushFile e p))) w3 = (r, w')"
      by simp
    from keeps_fsD [OF k run] have "fs w' = fs w3" .
    moreover from n run assms(2) have "r = Value ()"
      by (cases r) (auto dest: ordinaryD ordinary_builtinD)
    ultimately show ?thesis using lr f3 True by simp
  qed
qed

lemmas run_defs = seq_def ret_def throw_def process_exit_def builtin_changed_def console_log_def
  console_error_def
  readFileSync_def readdirSync_def writeFileSync_def JSON_parse_file_def download_bundle_def
  extname_is_json_def basename_json_def displayFilePath_def lintLocalesFile_def lintProject_def
  cleanupFile_def cleanupProject_def writePulled_def pullProject_def pullProject_write_def
  pull_project_run_def pull_command_def blank_world_def posix_env_def project_named_def
  reject_brace_def

lemmas data_defs = js_def JSON_stringify_def json_member_def QuoteJSONString_def quote_unit_def
  DQUOTE_def BACKSLASH_def LF_def is_lead_surrogate_def is_trail_surrogate_def
  reconcile_def assigns_builtin_def obj_member_def Object_prototype_names_def
  addKey_def removeKey_def obj_assign_def obj_define_def obj_delete_def obj_get_def
  has_own_def Object_keys_def is_array_index_def is_digit_def index_val_def
  cleanupJson_def cleanupJson_step_def cleanupValue_def TAB_def SPACE_def


section \<open>The claims\<close>

subsection \<open>The pull merge\<close>

text \<open>
  C1. For a bundle that has the default locale, with \<open>R\<close> the keys of its default-locale
  map and \<open>L\<close> the keys of the local reference: no key of \<open>R - L\<close> is left in any locale
  map, every key of \<open>L - R\<close> is in the default-locale map with the local value, and every
  other key keeps the value of the remote bundle. Lemmas \<open>reconcile_removed\<close>,
  \<open>reconcile_added\<close> and \<open>reconcile_kept\<close> prove the three parts, the second one for
  every key but \<^verbatim>\<open>__proto__\<close>. The theorem evaluates the merge where it fails: the local
  reference has the keys \<^verbatim>\<open>a\<close> and \<^verbatim>\<open>__proto__\<close>, the remote default locale has \<^verbatim>\<open>a\<close>
  only, and the merged default locale still has \<^verbatim>\<open>a\<close> only, because the assignment
  \<^verbatim>\<open>pulledDefaultLocale["__proto__"] = ...\<close> reaches the setter inherited from
  \<^verbatim>\<open>Object.prototype\<close>.
\<close>

theorem reconcile_proto_key_not_added:
  "reconcile (js ''en'')
     [(js ''a'', js ''A''), (js ''__proto__'', js ''P'')]
     [(js ''en'', [(js ''a'', js ''A'')])]
   = Some [(js ''en'', [(js ''a'', js ''A'')])]"
  by (simp add: reconcile_def obj_member_def addKey_def obj_assign_def obj_define_def obj_get_def
      has_own_def Object_keys_def js_def)

text \<open>
  C2, as the specification states it: the reference value of a newly-born key is also the
  value of that key in every other locale of the merged bundle. It is not: with the
  local reference \<^verbatim>\<open>{a: "A", b: "B"}\<close> and the bundle
  \<^verbatim>\<open>{en: {a: "A"}, fr: {a: "A2"}}\<close> the key \<^verbatim>\<open>b\<close> is new, and the merged \<^verbatim>\<open>fr\<close> has
  no \<^verbatim>\<open>b\<close>.
\<close>

theorem reconcile_provisional_value_counterexample:
  "reconcile (js ''en'')
     [(js ''a'', js ''A''), (js ''b'', js ''B'')]
     [(js ''en'', [(js ''a'', js ''A'')]), (js ''fr'', [(js ''a'', js ''A2'')])]
   = Some [(js ''en'', [(js ''a'', js ''A''), (js ''b'', js ''B'')]),
           (js ''fr'', [(js ''a'', js ''A2'')])] \<and>
   pulled_value [(js ''en'', [(js ''a'', js ''A''), (js ''b'', js ''B'')]),
                 (js ''fr'', [(js ''a'', js ''A2'')])] (js ''fr'') (js ''b'') = None \<and>
   obj_get [(js ''a'', js ''A''), (js ''b'', js ''B'')] (js ''b'') = Some (js ''B'')"
  by (simp add: reconcile_def obj_member_def addKey_def obj_assign_def obj_define_def obj_get_def
      has_own_def Object_keys_def js_def is_array_index_def is_digit_def pulled_value_def)

text \<open>
  C2, amended: a newly-born key (in the local reference, not in the default-locale map of
  the bundle) gets its reference value in the default-locale map only (the key
  \<^verbatim>\<open>__proto__\<close> set aside); every other locale of the merged bundle has for that key
  what the remote bundle had for it, which is nothing when the remote had no value.
\<close>

theorem reconcile_new_key_other_locales:
  assumes "reconcile d L B = Some B'" and "obj_get B d = Some D"
    and "k \<in> set (Object_keys L)" and "k \<notin> set (Object_keys D)"
  shows "(l \<noteq> d \<longrightarrow> pulled_value B' l k = pulled_value B l k) \<and>
         (k \<noteq> js ''__proto__'' \<longrightarrow> pulled_value B' d k = obj_get L k)"
proof -
  have "l \<noteq> d \<longrightarrow> pulled_value B' l k = pulled_value B l k"
    using assms by (auto intro: reconcile_kept)
  moreover have "k \<noteq> js ''__proto__'' \<longrightarrow> pulled_value B' d k = obj_get L k"
    using assms by (auto intro: reconcile_added)
  ultimately show ?thesis by blast
qed

theorem reconcile_new_key_other_locales_witness:
  "pulled_value [(js ''en'', [(js ''a'', js ''A''), (js ''b'', js ''B'')]),
                 (js ''fr'', [(js ''a'', js ''A2'')])] (js ''fr'') (js ''b'') = None \<and>
   pulled_value [(js ''en'', [(js ''a'', js ''A''), (js ''b'', js ''B'')]),
                 (js ''fr'', [(js ''a'', js ''A2'')])] (js ''en'') (js ''b'') = Some (js ''B'')"
proof -
  let ?L = "[(js ''a'', js ''A''), (js ''b'', js ''B'')]"
  let ?D = "[(js ''a'', js ''A'')]"
  let ?B = "[(js ''en'', ?D), (js ''fr'', [(js ''a'', js ''A2'')])]"
  let ?B' = "[(js ''en'', ?L), (js ''fr'', [(js ''a'', js ''A2'')])]"
  have r: "reconcile (js ''en'') ?L ?B = Some ?B'"
    by (simp add: reconcile_def obj_member_def addKey_def obj_assign_def obj_define_def obj_get_def
        has_own_def Object_keys_def js_def is_array_index_def is_digit_def)
  have d: "obj_get ?B (js ''en'') = Some ?D"
    by (simp add: obj_get_def js_def)
  have k: "js ''b'' \<in> set (Object_keys ?L)" "js ''b'' \<notin> set (Object_keys ?D)"
    by (simp_all add: Object_keys_def js_def)
  show ?thesis
    using reconcile_new_key_other_locales [OF r d k, of "js ''fr''"]
    by (simp add: pulled_value_def obj_get_def js_def)
qed

subsection \<open>The normalizer\<close>

text \<open>
  C3, as the specification states it: the value of a kept key is the input value with
  every run of tabs replaced by one space and all leading and trailing white space, of
  any kind, stripped. A value that begins with a line feed keeps it: \<^verbatim>\<open>"\nHello"\<close>
  comes out unchanged, where the specification's steps give \<^verbatim>\<open>"Hello"\<close>.
\<close>

theorem cleanupJson_strips_any_whitespace_counterexample:
  "obj_get (cleanupJson [(js ''k'', 0x0A # js ''Hello'')] {js ''k''}) (js ''k'')
     = Some (0x0A # js ''Hello'') \<and>
   spec_normalize_value (0x0A # js ''Hello'') = js ''Hello''"
  by (simp add: cleanupJson_def cleanupJson_step_def cleanupValue_def obj_define_def obj_get_def
      has_own_def Object_keys_def js_def is_array_index_def is_digit_def TAB_def SPACE_def
      spec_normalize_value_def spec_strip_leading_def spec_strip_trailing_def is_space_def)

text \<open>
  C3, amended: the value of a kept key is the input value with every run of tabs replaced
  by one space; then, if that begins with a space (U+0020), without its leading white
  space; then, if that ends with a space (U+0020), without its trailing white space.
  White space that a value begins or ends with and that the test for a space does not
  see stays. The value \<^verbatim>\<open>"\tHello \t"\<close> normalizes to \<^verbatim>\<open>"Hello"\<close>.
\<close>

theorem cleanupJson_value_guarded:
  "(obj_get (cleanupJson json K) k = Some v' \<longrightarrow>
      (\<exists>v. obj_get json k = Some v \<and> v' = guarded_normalize_value v)) \<and>
   (k \<in> K \<longrightarrow> obj_get json k = Some v \<longrightarrow>
      obj_get (cleanupJson json K) k = Some (guarded_normalize_value v)) \<and>
   guarded_normalize_value (TAB # js ''Hello '' @ [TAB]) = js ''Hello''"
proof -
  have "guarded_normalize_value (TAB # js ''Hello '' @ [TAB]) = js ''Hello''"
    by (simp add: guarded_normalize_value_def spec_strip_leading_def spec_strip_trailing_def
        js_def TAB_def SPACE_def is_space_def)
  then show ?thesis
    by (auto simp: obj_get_cleanupJson cleanupValue_guarded split: if_splits)
qed

theorem cleanupJson_value_guarded_witness:
  "obj_get (cleanupJson [(js ''greeting'', TAB # js ''Hello '' @ [TAB])] {js ''greeting''})
     (js ''greeting'') = Some (js ''Hello'')"
  using cleanupJson_value_guarded [of "[(js ''greeting'', TAB # js ''Hello '' @ [TAB])]"
      "{js ''greeting''}" "js ''greeting''" "js ''Hello''" "TAB # js ''Hello '' @ [TAB]"]
  by (simp add: obj_get_def)

text \<open>
  C4. Normalizing twice is normalizing once: \<^verbatim>\<open>cleanupJson(cleanupJson(m, K), K)\<close> is
  \<^verbatim>\<open>cleanupJson(m, K)\<close>, the same keys in the same order with the same values, for every
  map \<open>m\<close> and every key set \<open>K\<close>.
\<close>

theorem cleanupJson_idempotent:
  "cleanupJson (cleanupJson m K) K = cleanupJson m K"
proof -
  have "cleanupJson (cleanupJson m K) K =
        foldl (cleanupJson_step (cleanupJson m K) K) [] (sort (Object_keys (cleanupJson m K)))"
    by (simp add: cleanupJson_def)
  also have "\<dots> = foldl (cleanupJson_step m K) [] (sort (Object_keys (cleanupJson m K)))"
    by (rule foldl_step_cleaned) simp
  also have "\<dots> = foldl (cleanupJson_step m K) [] (remdups_adj (filter (\<lambda>k. k \<in> K) (sort (Object_keys m))))"
    by (simp only: sorted_keys_cleanupJson)
  also have "\<dots> = foldl (cleanupJson_step m K) [] (sort (Object_keys m))"
    by (simp only: foldl_step_remdups_adj foldl_step_filter)
  finally show ?thesis by (simp add: cleanupJson_def)
qed

theorem cleanupJson_idempotent_witness:
  "cleanupJson (cleanupJson [(js ''b'', js '' B''), (js ''a'', TAB # js ''A''), (js ''c'', js ''C'')]
                  {js ''a'', js ''b''}) {js ''a'', js ''b''}
   = cleanupJson [(js ''b'', js '' B''), (js ''a'', TAB # js ''A''), (js ''c'', js ''C'')]
       {js ''a'', js ''b''}"
  by (rule cleanupJson_idempotent)

text \<open>
  C5. The keys of \<^verbatim>\<open>cleanupJson(m, K)\<close> are the keys of \<open>m\<close> that are in \<open>K\<close> (lemma
  \<open>keys_cleanupJson\<close>), and they are listed in ascending lexicographic order when none of
  them is an array index (lemma \<open>cleanupJson_keys_sorted\<close>). The theorem evaluates the
  function where the order fails: for the keys \<^verbatim>\<open>"10"\<close> and \<^verbatim>\<open>"9"\<close> the sort gives
  \<^verbatim>\<open>"10"\<close>, \<^verbatim>\<open>"9"\<close>, and the object built from them lists \<^verbatim>\<open>"9"\<close>, \<^verbatim>\<open>"10"\<close>.
\<close>

theorem cleanupJson_array_index_keys_order:
  "Object_keys (cleanupJson [(js ''9'', js ''nine''), (js ''10'', js ''ten'')] {js ''9'', js ''10''})
     = [js ''9'', js ''10''] \<and>
   sort [js ''9'', js ''10''] = [js ''10'', js ''9'']"
  by (simp add: cleanupJson_def cleanupJson_step_def cleanupValue_def obj_define_def obj_get_def
      has_own_def Object_keys_def js_def is_array_index_def is_digit_def index_val_def
      TAB_def SPACE_def)

subsection \<open>The commands\<close>

text \<open>
  C6. A bundle that has no map for the default locale of the project makes
  \<^verbatim>\<open>pullProject\<close> print one error and return with no file written, and the
  \<^verbatim>\<open>pull\<close> command go on with the projects that follow, when the default locale is
  not the name of a member of \<^verbatim>\<open>Object.prototype\<close> (lemma
  \<open>pull_missing_ordinary_locale\<close>). The theorem evaluates the pull where this fails: the
  default locale of the project is \<^verbatim>\<open>constructor\<close>, the bundle has the locale
  \<^verbatim>\<open>fr\<close> only, and the reference file is \<^verbatim>\<open>{}\<close>. The bundle has no map for the
  default locale, but \<^verbatim>\<open>pulledLocales["constructor"]\<close> is the function \<^verbatim>\<open>Object\<close>
  that every object inherits, not \<^verbatim>\<open>undefined\<close>, and the test of line 164 fails: no
  error is printed, \<^verbatim>\<open>fr.json\<close> is written as it was pulled, and the clean step
  writes it again.
\<close>

theorem pull_inherited_default_locale:
  "obj_get [(js ''fr'', [(js ''a'', js ''A2'')])] (js ''constructor'') = None \<and>
   pullProject
     (posix_env [(JSON_stringify [] @ [LF], []),
                 (JSON_stringify [(js ''a'', js ''A2'')] @ [LF], [(js ''a'', js ''A2'')])]
        (\<lambda>v. None) [(js ''fr'', [(js ''a'', js ''A2'')])])
     ((project_named (js ''web''))\<lparr>defaultLocale := js ''constructor''\<rparr>)
     (blank_world [(js ''web'', [(js ''en.json'', JSON_stringify [] @ [LF])])])
   = (Value (),
      \<lparr>fs = [(js ''web'', [(js ''en.json'', JSON_stringify [] @ [LF]),
                            (js ''fr.json'', JSON_stringify [] @ [LF])])],
       console = [Stdout (js ''packages/web/src/locales/fr.json pulled''), Stdout [],
                  Stdout (js ''packages/web/src/locales/en.json cleaned''),
                  Stdout (js ''packages/web/src/locales/fr.json cleaned''), Stdout []],
       writes = [(js ''web'', js ''fr.json'', JSON_stringify [(js ''a'', js ''A2'')] @ [LF]),
                 (js ''web'', js ''fr.json'', JSON_stringify [] @ [LF])],
       uploads = []\<rparr>)"
  by (simp add: run_defs data_defs)

text \<open>
  C7, as the specification states it: whenever a locale map is written, the write is
  skipped if the serialized output equals the content of the file. \<^verbatim>\<open>pullProject\<close>
  does not skip: the file \<^verbatim>\<open>en.json\<close> holds \<^verbatim>\<open>{"a": "A"}\<close> as serialized, the remote
  bundle is \<^verbatim>\<open>{en: {"a": "A"}}\<close>, and the pull leaves the files as they were and has
  written \<^verbatim>\<open>en.json\<close> all the same.
\<close>

theorem pull_rewrites_identical_file_counterexample:
  "fs (snd (pullProject
        (posix_env [(JSON_stringify [(js ''a'', js ''A'')] @ [LF], [(js ''a'', js ''A'')])]
           (\<lambda>v. None) [(js ''en'', [(js ''a'', js ''A'')])])
        (project_named (js ''web''))
        (blank_world [(js ''web'', [(js ''en.json'', JSON_stringify [(js ''a'', js ''A'')] @ [LF])])])))
     = [(js ''web'', [(js ''en.json'', JSON_stringify [(js ''a'', js ''A'')] @ [LF])])] \<and>
   writes (snd (pullProject
        (posix_env [(JSON_stringify [(js ''a'', js ''A'')] @ [LF], [(js ''a'', js ''A'')])]
           (\<lambda>v. None) [(js ''en'', [(js ''a'', js ''A'')])])
        (project_named (js ''web''))
        (blank_world [(js ''web'', [(js ''en.json'', JSON_stringify [(js ''a'', js ''A'')] @ [LF])])])))
     = [(js ''web'', js ''en.json'', JSON_stringify [(js ''a'', js ''A'')] @ [LF])]"
  by (simp add: run_defs data_defs)

text \<open>
  C7, amended: a locale map is written to disk as \<^verbatim>\<open>JSON.stringify(map, null, 2)\<close>
  followed by one \<^verbatim>\<open>os.EOL\<close>: an empty map as \<^verbatim>\<open>{}\<close>, any other with a brace line, one
  line for each member behind two spaces, and a brace line. Only \<^verbatim>\<open>cleanupProject\<close>
  compares with the content of the file first and does not write when they are equal;
  \<^verbatim>\<open>pullProject\<close> and \<^verbatim>\<open>onlyKeepKeysInJson\<close> write in every case.
\<close>

theorem locale_file_writes:
  assumes "map_of (fs w) (name p) = Some dir"
  shows "(map_of dir locale = Some rawFile \<and> JSON_parse e rawFile = Some json \<longrightarrow>
            writes (snd (cleanupFile e p K locale w)) =
              writes w @ (if rawFile = JSON_stringify (cleanupJson json K) @ EOL e then []
                          else [(name p, locale, JSON_stringify (cleanupJson json K) @ EOL e)]) \<and>
            (rawFile = JSON_stringify (cleanupJson json K) @ EOL e \<longrightarrow>
               fs (snd (cleanupFile e p K locale w)) = fs w)) \<and>
         writes (snd (writePulled e p (localeName, pulledJson) w)) =
           writes w @ [(name p, localeName @ js ''.json'', JSON_stringify pulledJson @ EOL e)] \<and>
         (map_of dir file = Some content \<and> JSON_parse e content = Some fileJson \<longrightarrow>
            writes (snd (onlyKeepKeysInJson e p file keysToKeep w)) =
              writes w @ [(name p, file, JSON_stringify (jsonWithoutKeys fileJson keysToKeep) @ EOL e)]) \<and>
         JSON_stringify [] = js ''{}'' \<and>
         (members \<noteq> [] \<longrightarrow>
            split_js (JSON_stringify members) LF = js ''{'' # member_lines members @ [js ''}''])"
proof (intro conjI impI)
  assume a: "map_of dir locale = Some rawFile \<and> JSON_parse e rawFile = Some json"
  then show "writes (snd (cleanupFile e p K locale w)) =
              writes w @ (if rawFile = JSON_stringify (cleanupJson json K) @ EOL e then []
                          else [(name p, locale, JSON_stringify (cleanupJson json K) @ EOL e)])"
    using cleanupFile_writes(1) [OF assms, of "locale" rawFile e json K] by simp
  assume "rawFile = JSON_stringify (cleanupJson json K) @ EOL e"
  then show "fs (snd (cleanupFile e p K locale w)) = fs w"
    using a cleanupFile_writes(2) [OF assms, of "locale" rawFile e json K] by simp
next
  show "writes (snd (writePulled e p (localeName, pulledJson) w)) =
           writes w @ [(name p, localeName @ js ''.json'', JSON_stringify pulledJson @ EOL e)]"
    using assms by (rule writePulled_writes)
next
  assume "map_of dir file = Some content \<and> JSON_parse e content = Some fileJson"
  then show "writes (snd (onlyKeepKeysInJson e p file keysToKeep w)) =
              writes w @ [(name p, file, JSON_stringify (jsonWithoutKeys fileJson keysToKeep) @ EOL e)]"
    using onlyKeepKeysInJson_writes [OF assms, of "file" "content" e fileJson keysToKeep] by simp
next
  show "JSON_stringify [] = js ''{}''" by (simp add: JSON_stringify_def)
next
  assume "members \<noteq> []"
  then show "split_js (JSON_stringify members) LF = js ''{'' # member_lines members @ [js ''}'']"
    by (rule JSON_stringify_lines)
qed

theorem locale_file_writes_witness:
  "writes (snd (cleanupFile
       (posix_env [(JSON_stringify [(js ''a'', js ''A'')] @ [LF], [(js ''a'', js ''A'')])]
          (\<lambda>v. None) [])
       (project_named (js ''web'')) {js ''a''} (js ''en.json'')
       (blank_world [(js ''web'', [(js ''en.json'', JSON_stringify [(js ''a'', js ''A'')] @ [LF])])])))
     = [] \<and>
   writes (snd (writePulled
       (posix_env [(JSON_stringify [(js ''a'', js ''A'')] @ [LF], [(js ''a'', js ''A'')])]
          (\<lambda>v. None) [])
       (project_named (js ''web'')) (js ''en'', [(js ''a'', js ''A'')])
       (blank_world [(js ''web'', [(js ''en.json'', JSON_stringify [(js ''a'', js ''A'')] @ [LF])])])))
     = [(js ''web'', js ''en.json'', JSON_stringify [(js ''a'', js ''A'')] @ [LF])] \<and>
   split_js (JSON_stringify [(js ''a'', js ''A''), (js ''b'', js ''B'')]) LF
     = [js ''{'', js ''  '' @ [DQUOTE] @ js ''a'' @ [DQUOTE] @ js '': '' @ [DQUOTE] @ js ''A'' @ [DQUOTE] @ js '','',
        js ''  '' @ [DQUOTE] @ js ''b'' @ [DQUOTE] @ js '': '' @ [DQUOTE] @ js ''B'' @ [DQUOTE], js ''}'']"
proof -
  let ?data = "JSON_stringify [(js ''a'', js ''A'')] @ [LF]"
  let ?e = "posix_env [(?data, [(js ''a'', js ''A'')])] (\<lambda>v. None) []"
  let ?w = "blank_world [(js ''web'', [(js ''en.json'', ?data)])]"
  have d: "map_of (fs ?w) (name (project_named (js ''web''))) = Some [(js ''en.json'', ?data)]"
    by (simp add: blank_world_def project_named_def)
  have c: "cleanupJson [(js ''a'', js ''A'')] {js ''a''} = [(js ''a'', js ''A'')]"
    by (simp add: data_defs)
  have m: "member_lines [(js ''a'', js ''A''), (js ''b'', js ''B'')]
      = [js ''  '' @ [DQUOTE] @ js ''a'' @ [DQUOTE] @ js '': '' @ [DQUOTE] @ js ''A'' @ [DQUOTE] @ js '','',
         js ''  '' @ [DQUOTE] @ js ''b'' @ [DQUOTE] @ js '': '' @ [DQUOTE] @ js ''B'' @ [DQUOTE]]"
    by (simp add: data_defs)
  show ?thesis
    using locale_file_writes [OF d, of "js ''en.json''" ?data ?e "[(js ''a'', js ''A'')]" "{js ''a''}"
        "js ''en''" "[(js ''a'', js ''A'')]" "js ''en.json''" ?data "[(js ''a'', js ''A'')]" "{}"
        "[(js ''a'', js ''A''), (js ''b'', js ''B'')]"]
    by (simp add: data_defs posix_env_def blank_world_def project_named_def)
qed

text \<open>
  C8, as the specification states it: a \<^verbatim>\<open>pull\<close> that finds a validation error exits
  with status 1 only after the remaining projects have been processed and reported. With
  the projects \<^verbatim>\<open>web\<close> and \<^verbatim>\<open>app\<close> and an invalid message pulled for \<^verbatim>\<open>web\<close>, the
  process exits with status 1 and nothing has been printed about \<^verbatim>\<open>app\<close>.
\<close>

theorem pull_stops_at_first_error_counterexample:
  "fst (pull_command
        (posix_env [(JSON_stringify [(js ''a'', js ''{'')] @ [LF], [(js ''a'', js ''{'')])]
           reject_brace [(js ''en'', [(js ''a'', js ''{'')])])
        [project_named (js ''web''), project_named (js ''app'')]
        (blank_world [(js ''web'', [(js ''en.json'', JSON_stringify [(js ''a'', js ''{'')] @ [LF])]),
                      (js ''app'', [(js ''en.json'', JSON_stringify [(js ''a'', js ''{'')] @ [LF])])]))
     = Exit 1 \<and>
   console (snd (pull_command
        (posix_env [(JSON_stringify [(js ''a'', js ''{'')] @ [LF], [(js ''a'', js ''{'')])]
           reject_brace [(js ''en'', [(js ''a'', js ''{'')])])
        [project_named (js ''web''), project_named (js ''app'')]
        (blank_world [(js ''web'', [(js ''en.json'', JSON_stringify [(js ''a'', js ''{'')] @ [LF])]),
                      (js ''app'', [(js ''en.json'', JSON_stringify [(js ''a'', js ''{'')] @ [LF])])])))
     = [Stdout (js ''web''), Stdout (js ''---''),
        Stdout (js ''packages/web/src/locales/en.json pulled''), Stdout [],
        Stdout (js ''packages/web/src/locales/en.json cleaned''), Stdout [],
        Stdout (js ''packages/web/src/locales/en.json errors''),
        Stdout (js ''  a: SyntaxError'')]"
  by (simp add: run_defs data_defs)

text \<open>
  C8, amended: in the \<^verbatim>\<open>pull\<close> and \<^verbatim>\<open>push\<close> commands a project whose steps do not
  throw ends the process with status 1 exactly when the lint of its files, as they have
  been written and cleaned, reports a validation error; the process exits there, with
  every file as it is at that moment, and the projects after it are not processed. The
  \<^verbatim>\<open>lint\<close> command (when no file fails to be read or parsed) lints and reports every
  project, then exits with status 1 if one of them had an error and ends normally
  otherwise.
\<close>

theorem validation_errors_exit:
  "(pull_project_run e p w = (Exit n, w') \<longrightarrow>
      n = 1 \<and> lint_result e p (fs w') = Value False \<and>
      (forEach before (pull_project_run e) w0 = (Value (), w) \<longrightarrow>
         pull_command e (before @ p # rest) w0 = (Exit 1, w'))) \<and>
   (pullProject_write e p merged w = (r, w') \<and> r \<noteq> Throw \<longrightarrow>
      (r = Exit 1 \<longleftrightarrow> lint_result e p (fs w') = Value False)) \<and>
   (push_project_run e p w = (Exit n, w') \<longrightarrow>
      n = 1 \<and> lint_result e p (fs w') = Value False \<and>
      (forEach before (push_project_run e) w0 = (Value (), w) \<longrightarrow>
         push_command e (before @ p # rest) w0 = (Exit 1, w'))) \<and>
   (pushProject e p w = (r, w') \<and> r \<noteq> Throw \<longrightarrow>
      (r = Exit 1 \<longleftrightarrow> lint_result e p (fs w') = Value False)) \<and>
   ((\<forall>q \<in> set projects. lint_result e q (fs w) \<noteq> Throw) \<longrightarrow>
      lint_command e projects w =
        ((if \<exists>q \<in> set projects. lint_result e q (fs w) = Value False then Exit 1 else Value ()),
         w\<lparr>console := console w @
              concat (map (\<lambda>q. lint_report e q (fs w) @
                                (if lint_result e q (fs w) = Value False
                                 then [Stdout [], Stdout []] else [])) projects)\<rparr>))"
proof -
  have failed: "lint_result e p (fs w') = Value False"
    if "\<exists>w1. lintProject e p w1 = (Value False, w')"
  proof -
    from that obtain w1 where "lintProject e p w1 = (Value False, w')" by blast
    then show ?thesis by (auto simp: lintProject_report)
  qed
  have pull: "n = 1 \<and> lint_result e p (fs w') = Value False \<and>
      (forEach before (pull_project_run e) w0 = (Value (), w) \<longrightarrow>
         pull_command e (before @ p # rest) w0 = (Exit 1, w'))"
    if r: "pull_project_run e p w = (Exit n, w')"
    using r pull_project_run_exit [OF r] failed
      forEach_stops [where f = "pull_project_run e" and xs = before and ?w0.0 = w0 and w = w
        and y = p and r = "Exit n" and w' = w' and zs = rest]
    by (auto simp: pull_command_def)
  have push: "n = 1 \<and> lint_result e p (fs w') = Value False \<and>
      (forEach before (push_project_run e) w0 = (Value (), w) \<longrightarrow>
         push_command e (before @ p # rest) w0 = (Exit 1, w'))"
    if r: "push_project_run e p w = (Exit n, w')"
    using r push_project_run_exit [OF r] failed
      forEach_stops [where f = "push_project_run e" and xs = before and ?w0.0 = w0 and w = w
        and y = p and r = "Exit n" and w' = w' and zs = rest]
    by (auto simp: push_command_def)
  have pullw: "r = Exit 1 \<longleftrightarrow> lint_result e p (fs w') = Value False"
    if "pullProject_write e p merged w = (r, w') \<and> r \<noteq> Throw"
    using that pullProject_write_result [of e p merged w r w'] by auto
  have pushw: "r = Exit 1 \<longleftrightarrow> lint_result e p (fs w') = Value False"
    if "pushProject e p w = (r, w') \<and> r \<noteq> Throw"
    using that pushProject_result [of e p w r w'] by auto
  have lint: "lint_command e projects w =
        ((if \<exists>q \<in> set projects. lint_result e q (fs w) = Value False then Exit 1 else Value ()),
         w\<lparr>console := console w @
              concat (map (\<lambda>q. lint_report e q (fs w) @
                                (if lint_result e q (fs w) = Value False
                                 then [Stdout [], Stdout []] else [])) projects)\<rparr>)"
    if "\<forall>q \<in> set projects. lint_result e q (fs w) \<noteq> Throw"
    using that by (rule lint_command_closed)
  from pull pullw push pushw lint show ?thesis by blast
qed

theorem validation_errors_exit_witness:
  "pull_command
     (posix_env [(JSON_stringify [(js ''a'', js ''{'')] @ [LF], [(js ''a'', js ''{'')])]
        reject_brace [(js ''en'', [(js ''a'', js ''{'')])])
     [project_named (js ''web''), project_named (js ''app'')]
     (blank_world [(js ''web'', [(js ''en.json'', JSON_stringify [(js ''a'', js ''{'')] @ [LF])]),
                   (js ''app'', [(js ''en.json'', JSON_stringify [(js ''a'', js ''{'')] @ [LF])])])
   = pull_project_run
     (posix_env [(JSON_stringify [(js ''a'', js ''{'')] @ [LF], [(js ''a'', js ''{'')])]
        reject_brace [(js ''en'', [(js ''a'', js ''{'')])])
     (project_named (js ''web''))
     (blank_world [(js ''web'', [(js ''en.json'', JSON_stringify [(js ''a'', js ''{'')] @ [LF])]),
                   (js ''app'', [(js ''en.json'', JSON_stringify [(js ''a'', js ''{'')] @ [LF])])]) \<and>
   fst (lint_command
     (posix_env [(JSON_stringify [(js ''a'', js ''{'')] @ [LF], [(js ''a'', js ''{'')])]
        reject_brace [(js ''en'', [(js ''a'', js ''{'')])])
     [project_named (js ''web''), project_named (js ''app'')]
     (blank_world [(js ''web'', [(js ''en.json'', JSON_stringify [(js ''a'', js ''{'')] @ [LF])]),
                   (js ''app'', [(js ''en.json'', JSON_stringify [(js ''a'', js ''{'')] @ [LF])])]))
   = Exit 1"
proof -
  let ?data = "JSON_stringify [(js ''a'', js ''{'')] @ [LF]"
  let ?e = "posix_env [(?data, [(js ''a'', js ''{'')])] reject_brace [(js ''en'', [(js ''a'', js ''{'')])]"
  let ?web = "project_named (js ''web'')"
  let ?app = "project_named (js ''app'')"
  let ?w = "blank_world [(js ''web'', [(js ''en.json'', ?data)]), (js ''app'', [(js ''en.json'', ?data)])]"
  have x: "fst (pull_project_run ?e ?web ?w) = Exit 1"
    by (simp add: run_defs data_defs)
  then have r: "pull_project_run ?e ?web ?w = (Exit 1, snd (pull_project_run ?e ?web ?w))"
    by (metis prod.collapse)
  have f: "forEach [] (pull_project_run ?e) ?w = (Value (), ?w)"
    by (simp add: ret_def)
  have l: "lint_result ?e ?web (fs ?w) = Value False" "lint_result ?e ?app (fs ?w) = Value False"
    by (simp_all add: lint_result_def run_defs data_defs)
  have t: "\<forall>q \<in> set [?web, ?app]. lint_result ?e q (fs ?w) \<noteq> Throw"
    using l by simp
  from validation_errors_exit [where e = ?e and p = ?web and w = ?w and n = 1
      and w' = "snd (pull_project_run ?e ?web ?w)" and before = "[]" and ?w0.0 = ?w
      and rest = "[?app]" and projects = "[?web, ?app]"] r f t l
  show ?thesis by simp
qed

subsection \<open>The usage scanner\<close>

text \<open>
  C9. A reference key \<open>k\<close> is kept as used exactly when the source text contains \<open>k\<close> in
  double quotes, single quotes or backticks, or a backtick followed by \<open>k1\<close> or by \<open>k2\<close>
  (all but the last segment, all but the last two segments, joined with dots, with
  \<^verbatim>\<open>.${\<close> appended); it is listed as unused exactly when it is not. \<open>spec_used\<close> says
  so in the words of the specification, with segments, joining and containment of its
  own; the code's \<^verbatim>\<open>split\<close>, \<^verbatim>\<open>slice\<close>, \<^verbatim>\<open>join\<close> and \<^verbatim>\<open>includes\<close> are on the
  other side of the equivalence.
\<close>

theorem scanner_used_iff:
  assumes "k \<in> set refrenceKeys"
  shows "(k \<in> keptKeys code refrenceKeys \<longleftrightarrow> spec_used code k) \<and>
         (k \<in> set (unusedKeys code refrenceKeys) \<longleftrightarrow> \<not> spec_used code k)"
  using assms by (auto simp: keptKeys_def unusedKeys_def isUnused_spec)

text \<open>
  The source \<^verbatim>\<open>t("home.title") t(`items.${field}`)\<close> keeps \<^verbatim>\<open>home.title\<close> by a
  direct match, \<^verbatim>\<open>items.price\<close> by its first variant and \<^verbatim>\<open>items.price.net\<close> by its
  second variant, and leaves \<^verbatim>\<open>home.count\<close> unused.
\<close>

theorem scanner_used_iff_witness:
  "js ''home.title'' \<in> keptKeys
     (js ''t('' @ [DQUOTE] @ js ''home.title'' @ [DQUOTE] @ js '') t('' @ [BACKTICK] @
      js ''items.${field}'' @ [BACKTICK] @ js '')'')
     [js ''home.title'', js ''home.count'', js ''items.price'', js ''items.price.net''] \<and>
   js ''items.price'' \<in> keptKeys
     (js ''t('' @ [DQUOTE] @ js ''home.title'' @ [DQUOTE] @ js '') t('' @ [BACKTICK] @
      js ''items.${field}'' @ [BACKTICK] @ js '')'')
     [js ''home.title'', js ''home.count'', js ''items.price'', js ''items.price.net''] \<and>
   js ''items.price.net'' \<in> keptKeys
     (js ''t('' @ [DQUOTE] @ js ''home.title'' @ [DQUOTE] @ js '') t('' @ [BACKTICK] @
      js ''items.${field}'' @ [BACKTICK] @ js '')'')
     [js ''home.title'', js ''home.count'', js ''items.price'', js ''items.price.net''] \<and>
   unusedKeys
     (js ''t('' @ [DQUOTE] @ js ''home.title'' @ [DQUOTE] @ js '') t('' @ [BACKTICK] @
      js ''items.${field}'' @ [BACKTICK] @ js '')'')
     [js ''home.title'', js ''home.count'', js ''items.price'', js ''items.price.net'']
     = [js ''home.count''] \<and>
   spec_used
     (js ''t('' @ [DQUOTE] @ js ''home.title'' @ [DQUOTE] @ js '') t('' @ [BACKTICK] @
      js ''items.${field}'' @ [BACKTICK] @ js '')'')
     (js ''items.price'') \<and>
   \<not> spec_used
     (js ''t('' @ [DQUOTE] @ js ''home.title'' @ [DQUOTE] @ js '') t('' @ [BACKTICK] @
      js ''items.${field}'' @ [BACKTICK] @ js '')'')
     (js ''home.count'') \<and>
   spec_k1 (js ''items.price'') = js ''items.${'' \<and>
   spec_k2 (js ''items.price.net'') = js ''items.${''"
proof -
  let ?code = "js ''t('' @ [DQUOTE] @ js ''home.title'' @ [DQUOTE] @ js '') t('' @ [BACKTICK] @
      js ''items.${field}'' @ [BACKTICK] @ js '')''"
  let ?keys = "[js ''home.title'', js ''home.count'', js ''items.price'', js ''items.price.net'']"
  have u: "unusedKeys ?code ?keys = [js ''home.count'']"
    by (simp add: unusedKeys_def isUnused_def variantKey1_def variantKey2_def slice_js_def
        js_def DOT_def DQUOTE_def SQUOTE_def BACKTICK_def)
  have s1: "spec_used ?code (js ''items.price'')"
    by (simp add: spec_used_def spec_contains_def spec_k1_def spec_k2_def spec_segments_def
        spec_joined_def js_def DQUOTE_def BACKTICK_def)
  have s2: "\<not> spec_used ?code (js ''home.count'')"
    by (simp add: spec_used_def spec_contains_def spec_k1_def spec_k2_def spec_segments_def
        spec_joined_def js_def DQUOTE_def BACKTICK_def)
  have k: "spec_k1 (js ''items.price'') = js ''items.${''"
    "spec_k2 (js ''items.price.net'') = js ''items.${''"
    by (simp_all add: spec_k1_def spec_k2_def spec_segments_def spec_joined_def js_def)
  have m: "js ''home.title'' \<in> set ?keys" "js ''home.count'' \<in> set ?keys"
    "js ''items.price'' \<in> set ?keys" "js ''items.price.net'' \<in> set ?keys"
    by simp_all
  from scanner_used_iff [OF m(1), of ?code] scanner_used_iff [OF m(2), of ?code]
    scanner_used_iff [OF m(3), of ?code] scanner_used_iff [OF m(4), of ?code] u s1 s2 k
  show ?thesis by (simp add: js_def)
qed

text \<open>
  C10. For a key of at most two dot-delimited segments the second variant is the bare
  string \<^verbatim>\<open>.${\<close>, and for a key of one segment the first variant is too; so when the
  source text contains a backtick followed by \<^verbatim>\<open>.${\<close>, every such reference key is kept
  as used, whatever its name.
\<close>

theorem short_key_always_used:
  assumes "length (split_js k DOT) \<le> 2"
  shows "variantKey2 k = js ''.${'' \<and>
         (length (split_js k DOT) = 1 \<longrightarrow> variantKey1 k = js ''.${'') \<and>
         (includes_js code (BACKTICK # js ''.${'') \<and> k \<in> set refrenceKeys \<longrightarrow>
            k \<in> keptKeys code refrenceKeys \<and> k \<notin> set (unusedKeys code refrenceKeys))"
proof -
  from assms have b2: "butlast (butlast (split_js k DOT)) = []"
    by (cases "split_js k DOT" rule: rev_cases; cases "butlast (split_js k DOT)" rule: rev_cases) auto
  then have v2: "variantKey2 k = js ''.${''"
    by (simp add: variantKey2_def slice_js_butlast2)
  have v1: "length (split_js k DOT) = 1 \<longrightarrow> variantKey1 k = js ''.${''"
  proof
    assume "length (split_js k DOT) = 1"
    then have "butlast (split_js k DOT) = []"
      by (cases "split_js k DOT") auto
    then show "variantKey1 k = js ''.${''"
      by (simp add: variantKey1_def slice_js_butlast)
  qed
  have "includes_js code (BACKTICK # js ''.${'') \<and> k \<in> set refrenceKeys \<longrightarrow>
          k \<in> keptKeys code refrenceKeys \<and> k \<notin> set (unusedKeys code refrenceKeys)"
    by (auto simp: keptKeys_def unusedKeys_def isUnused_def v2)
  with v1 v2 show ?thesis by blast
qed

theorem short_key_always_used_witness:
  "length (split_js (js ''title'') DOT) \<le> 2 \<and>
   variantKey1 (js ''title'') = js ''.${'' \<and>
   js ''title'' \<in> keptKeys (js ''t('' @ [BACKTICK] @ js ''.${name}'' @ [BACKTICK] @ js '')'') [js ''title'']"
proof -
  have len: "length (split_js (js ''title'') DOT) \<le> 2"
    by (simp add: js_def DOT_def)
  show ?thesis
    using len short_key_always_used [OF len,
        of "js ''t('' @ [BACKTICK] @ js ''.${name}'' @ [BACKTICK] @ js '')''" "[js ''title'']"]
    by (simp add: js_def DOT_def BACKTICK_def)
qed

end
